(* ===== verification/Prelude.thy ===== *)
theory Prelude
  imports Main "HOL-Library.Multiset"
begin

text \<open>
  Shared ground of the development: the outcome of running Go code (a value, a panic, or a
  goroutine that never continues), actions that pass a state explicitly, the byte strings of Go,
  and the generic lemmas on lists and separators that the component theories use.

  A Go function that changes state is a HOL function \<open>'w \<Rightarrow> 'a outcome \<times> 'w\<close>: the state after the
  call is returned also when the call panics, because effects that happened before the panic
  stay visible to whoever recovers.
\<close>

section \<open>Types shared by every component\<close>

type_synonym bytes = string

named_theorems outcome_simps
named_theorems line_simps

datatype panic =
    NilMapWrite
  | FailedTypeAssertion
  | NilInterfaceCall
  | DivideByZero
  | SendOnClosedChannel
  | CloseOfClosedChannel
  | MakeChanSizeOutOfRange
  | PanicValue string

datatype 'a outcome = Ret 'a | Panic panic | Hang

type_synonym ('w, 'a) action = "'w \<Rightarrow> 'a outcome \<times> 'w"

definition bindA :: "('w, 'a) action \<Rightarrow> ('a \<Rightarrow> ('w, 'b) action) \<Rightarrow> ('w, 'b) action" where
  "bindA m f w =
     (case m w of
        (Ret a, w') \<Rightarrow> f a w'
      | (Panic p, w') \<Rightarrow> (Panic p, w')
      | (Hang, w') \<Rightarrow> (Hang, w'))"

definition returnA :: "'a \<Rightarrow> ('w, 'a) action" where
  "returnA a w = (Ret a, w)"

fun is_ret :: "'a outcome \<Rightarrow> bool" where
  "is_ret (Ret _) = True"
| "is_ret _ = False"

lemma bindA_simps [simp, outcome_simps]:
  "m w = (Ret a, w') \<Longrightarrow> bindA m f w = f a w'"
  "m w = (Panic p, w') \<Longrightarrow> bindA m f w = (Panic p, w')"
  "m w = (Hang, w') \<Longrightarrow> bindA m f w = (Hang, w')"
  by (simp_all add: bindA_def)

lemma bindA_returnA [simp]: "bindA (returnA a) f = f a"
  by (simp add: bindA_def returnA_def fun_eq_iff)

lemma bindA_assoc: "bindA (bindA m f) g = bindA m (\<lambda>x. bindA (f x) g)"
  by (rule ext) (simp add: bindA_def split: prod.splits outcome.splits)

lemma bindA_RetE:
  assumes "bindA m f w = (Ret b, w'')"
  obtains a w' where "m w = (Ret a, w')" and "f a w' = (Ret b, w'')"
  using assms by (auto simp: bindA_def split: prod.splits outcome.splits)

lemma is_ret_iff: "is_ret r \<longleftrightarrow> (\<exists>a. r = Ret a)"
  by (cases r) auto

section \<open>Go strings and lines\<close>

abbreviation newline :: char where
  "newline \<equiv> CHR 0x0A"

text \<open>\<open>strings.Join\<close>, the inverse \<open>split_on\<close> of it for a single separator byte.\<close>

fun joinStr :: "string \<Rightarrow> string list \<Rightarrow> string" where
  "joinStr sep [] = []"
| "joinStr sep [x] = x"
| "joinStr sep (x # y # xs) = x @ sep @ joinStr sep (y # xs)"

fun split_on :: "char \<Rightarrow> string \<Rightarrow> string list" where
  "split_on c [] = [[]]"
| "split_on c (x # xs) =
     (if x = c then [] # split_on c xs
      else (case split_on c xs of [] \<Rightarrow> [[x]] | y # ys \<Rightarrow> (x # y) # ys))"

definition nonempty_lines :: "string \<Rightarrow> string list" where
  "nonempty_lines s = filter (\<lambda>l. l \<noteq> []) (split_on newline s)"

lemma split_on_not_Nil [simp]: "split_on c s \<noteq> []"
  by (induction s) (auto split: list.splits)

lemma joinStr_Cons:
  "xs \<noteq> [] \<Longrightarrow> joinStr sep (x # xs) = x @ sep @ joinStr sep xs"
  by (cases xs) auto

lemma joinStr_snoc:
  "xs \<noteq> [] \<Longrightarrow> joinStr sep (xs @ [x]) = joinStr sep xs @ sep @ x"
proof (induction xs)
  case (Cons y ys)
  then show ?case by (cases "ys = []") (auto simp: joinStr_Cons)
qed simp

lemma split_on_absent: "c \<notin> set s \<Longrightarrow> split_on c s = [s]"
  by (induction s) auto

lemma split_on_sep:
  "split_on c (xs @ c # ys) = split_on c xs @ split_on c ys"
  by (induction xs) (auto split: list.splits)

lemma split_on_line [line_simps]:
  "c \<notin> set x \<Longrightarrow> split_on c (x @ c # ys) = x # split_on c ys"
  by (simp add: split_on_sep split_on_absent)

lemma nonempty_lines_sep [line_simps]:
  "nonempty_lines (xs @ newline # ys) = nonempty_lines xs @ nonempty_lines ys"
  by (simp add: nonempty_lines_def split_on_sep)

lemma nonempty_lines_Nil [simp]: "nonempty_lines [] = []"
  by (simp add: nonempty_lines_def)

lemma nonempty_lines_Cons_newline [line_simps]:
  "nonempty_lines (newline # ys) = nonempty_lines ys"
  using nonempty_lines_sep [of "[]" ys] by simp

lemma nonempty_lines_single [line_simps]:
  "newline \<notin> set x \<Longrightarrow> x \<noteq> [] \<Longrightarrow> nonempty_lines x = [x]"
  by (simp add: nonempty_lines_def split_on_absent)

lemma split_on_joinStr:
  assumes "xs \<noteq> []" and "\<forall>x \<in> set xs. c \<notin> set x"
  shows "split_on c (joinStr [c] xs) = xs"
  using assms
proof (induction xs)
  case (Cons x xs)
  then show ?case
    by (cases "xs = []") (auto simp: joinStr_Cons split_on_line split_on_absent)
qed simp

lemma joinStr_split_on: "joinStr [c] (split_on c s) = s"
proof (induction s)
  case (Cons x xs)
  show ?case
  proof (cases "split_on c xs")
    case (Cons y ys)
    then show ?thesis using Cons.IH by (cases ys) (auto simp: joinStr_Cons)
  qed simp
qed simp

end
