(* ===== verification/Go_Strings.thy ===== *)
theory Go_Strings
  imports Prelude
begin

text \<open>
  What the program uses of Go's standard library on strings and integers: \<open>strings.TrimSpace\<close>,
  \<open>strings.Split\<close>, \<open>strings.Contains\<close>, \<open>strings.HasPrefix\<close>, \<open>filepath.Base\<close>,
  \<open>strconv.ParseInt\<close> and \<open>strconv.ParseBool\<close> with the value they return beside an error, and the
  decimal verbs of \<open>fmt\<close>. Strings are byte strings, as in Go.
\<close>

section \<open>Prefixes, suffixes and substrings\<close>

fun HasPrefix :: "string \<Rightarrow> string \<Rightarrow> bool" where
  "HasPrefix s [] = True"
| "HasPrefix [] (p # ps) = False"
| "HasPrefix (c # s) (p # ps) = (c = p \<and> HasPrefix s ps)"

fun Contains :: "string \<Rightarrow> string \<Rightarrow> bool" where
  "Contains [] sub = (sub = [])"
| "Contains (c # s) sub = (HasPrefix (c # s) sub \<or> Contains s sub)"

lemma HasPrefix_iff: "HasPrefix s p \<longleftrightarrow> (\<exists>r. s = p @ r)"
  by (induction s p rule: HasPrefix.induct) auto

lemma Contains_iff: "Contains s sub \<longleftrightarrow> (\<exists>a b. s = a @ sub @ b)"
proof (induction s)
  case (Cons c s)
  note IH = Cons.IH
  show ?case
  proof
    assume "Contains (c # s) sub"
    then consider "HasPrefix (c # s) sub" | "Contains s sub" by auto
    then show "\<exists>a b. c # s = a @ sub @ b"
    proof cases
      case 1
      then show ?thesis by (metis HasPrefix_iff append_Nil)
    next
      case 2
      with Cons.IH obtain a b where "s = a @ sub @ b" by blast
      then have "c # s = (c # a) @ sub @ b" by simp
      then show ?thesis by blast
    qed
  next
    assume "\<exists>a b. c # s = a @ sub @ b"
    then obtain a b where eq: "c # s = a @ sub @ b" by blast
    show "Contains (c # s) sub"
    proof (cases a)
      case Nil
      with eq have "HasPrefix (c # s) sub" by (auto simp: HasPrefix_iff)
      then show ?thesis by simp
    next
      case (Cons d a')
      with eq have "s = a' @ sub @ b" by simp
      then have "Contains s sub" using IH by blast
      then show ?thesis by simp
    qed
  qed
qed simp

section \<open>TrimSpace\<close>

text \<open>
  The white space of \<open>unicode.IsSpace\<close> in UTF-8: the six ASCII bytes, and the encodings of U+0085,
  U+00A0, U+1680, U+2000 to U+200A, U+2028, U+2029, U+202F, U+205F and U+3000.
\<close>

definition ascii_space :: "char \<Rightarrow> bool" where
  "ascii_space c \<longleftrightarrow>
     c = CHR 0x09 \<or> c = CHR 0x0A \<or> c = CHR 0x0B \<or> c = CHR 0x0C \<or> c = CHR 0x0D \<or> c = CHR 0x20"

definition wide_spaces :: "string list" where
  "wide_spaces =
     [[CHR 0xC2, CHR 0x85], [CHR 0xC2, CHR 0xA0], [CHR 0xE1, CHR 0x9A, CHR 0x80],
      [CHR 0xE2, CHR 0x80, CHR 0x80], [CHR 0xE2, CHR 0x80, CHR 0x81], [CHR 0xE2, CHR 0x80, CHR 0x82],
      [CHR 0xE2, CHR 0x80, CHR 0x83], [CHR 0xE2, CHR 0x80, CHR 0x84], [CHR 0xE2, CHR 0x80, CHR 0x85],
      [CHR 0xE2, CHR 0x80, CHR 0x86], [CHR 0xE2, CHR 0x80, CHR 0x87], [CHR 0xE2, CHR 0x80, CHR 0x88],
      [CHR 0xE2, CHR 0x80, CHR 0x89], [CHR 0xE2, CHR 0x80, CHR 0x8A], [CHR 0xE2, CHR 0x80, CHR 0xA8],
      [CHR 0xE2, CHR 0x80, CHR 0xA9], [CHR 0xE2, CHR 0x80, CHR 0xAF], [CHR 0xE2, CHR 0x81, CHR 0x9F],
      [CHR 0xE3, CHR 0x80, CHR 0x80]]"

text \<open>
  \<open>space_len encs s\<close> is the number of bytes of the white space rune at the head of \<open>s\<close>, 0 when
  there is none. A rune is cut from the end of a string by cutting its reversed encoding from
  the head of the reversed string: the first byte of an encoding is never a continuation byte.
\<close>

fun wide_len :: "string list \<Rightarrow> string \<Rightarrow> nat" where
  "wide_len [] s = 0"
| "wide_len (e # es) s = (if HasPrefix s e then length e else wide_len es s)"

definition space_len :: "string list \<Rightarrow> string \<Rightarrow> nat" where
  "space_len encs s =
     (case s of [] \<Rightarrow> 0 | c # _ \<Rightarrow> if ascii_space c then 1 else wide_len encs s)"

function trim_front :: "string list \<Rightarrow> string \<Rightarrow> string" where
  "trim_front encs s =
     (if s = [] \<or> space_len encs s = 0 then s else trim_front encs (drop (space_len encs s) s))"
  by pat_completeness auto
termination
  by (relation "measure (\<lambda>(encs, s). length s)") auto

declare trim_front.simps [simp del]

definition TrimSpace :: "string \<Rightarrow> string" where
  "TrimSpace s = rev (trim_front (map rev wide_spaces) (rev (trim_front wide_spaces s)))"

lemma trim_front_suffix: "\<exists>p. s = p @ trim_front encs s"
proof (induction encs s rule: trim_front.induct)
  case (1 encs s)
  show ?case
  proof (cases "s = [] \<or> space_len encs s = 0")
    case True
    then show ?thesis by (simp add: trim_front.simps [of encs s])
  next
    case False
    with 1 obtain p where "drop (space_len encs s) s = p @ trim_front encs (drop (space_len encs s) s)"
      by blast
    then have "s = (take (space_len encs s) s @ p) @ trim_front encs (drop (space_len encs s) s)"
      by (metis append.assoc append_take_drop_id)
    with False show ?thesis by (metis trim_front.simps)
  qed
qed

lemma trim_front_stops: "trim_front encs s = [] \<or> space_len encs (trim_front encs s) = 0"
  by (induction encs s rule: trim_front.induct) (metis trim_front.simps)

text \<open>Trimming only removes bytes from the two ends.\<close>

lemma TrimSpace_infix: "\<exists>a b. s = a @ TrimSpace s @ b"
proof -
  obtain a where a: "s = a @ trim_front wide_spaces s"
    using trim_front_suffix by blast
  obtain b where b: "rev (trim_front wide_spaces s)
      = b @ trim_front (map rev wide_spaces) (rev (trim_front wide_spaces s))"
    using trim_front_suffix by blast
  then have "trim_front wide_spaces s = TrimSpace s @ rev b"
    by (metis TrimSpace_def rev_append rev_rev_ident)
  with a show ?thesis by metis
qed

lemma TrimSpace_Nil [simp]: "TrimSpace [] = []"
  by (simp add: TrimSpace_def trim_front.simps)

section \<open>Split and Base\<close>

definition Split_comma :: "string \<Rightarrow> string list" where
  "Split_comma s = split_on (CHR '','') s"

text \<open>
  \<open>filepath.Base\<close>: trailing slashes are cut, then the last element is kept; an empty path is
  \<open>.\<close> and a path of slashes only is \<open>/\<close>.
\<close>

definition filepath_Base :: "string \<Rightarrow> string" where
  "filepath_Base p =
     (if p = [] then ''.''
      else let t = rev (dropWhile (\<lambda>c. c = CHR ''/'') (rev p))
           in if t = [] then ''/'' else rev (takeWhile (\<lambda>c. c \<noteq> CHR ''/'') (rev t)))"

lemma filepath_Base_no_slash: "filepath_Base p = ''/'' \<or> CHR ''/'' \<notin> set (filepath_Base p)"
  by (auto simp: filepath_Base_def Let_def dest: set_takeWhileD)

section \<open>ParseInt and ParseBool\<close>

text \<open>
  \<open>strconv.ParseInt(s, 10, bits)\<close> returns a value beside its error: 0 for a syntax error and the
  nearest representable value for a range error. The digit loop of \<open>ParseUint\<close> stops at the first
  value above the unsigned maximum, before it has looked at the remaining bytes.
\<close>

datatype num_error = ErrSyntax | ErrRange

definition digit_val :: "char \<Rightarrow> int option" where
  "digit_val c =
     (let n = of_char c :: int in if 48 \<le> n \<and> n \<le> 57 then Some (n - 48) else None)"

fun parse_uint_loop :: "int \<Rightarrow> int \<Rightarrow> string \<Rightarrow> int \<times> num_error option" where
  "parse_uint_loop maxVal n [] = (n, None)"
| "parse_uint_loop maxVal n (c # cs) =
     (case digit_val c of
        None \<Rightarrow> (0, Some ErrSyntax)
      | Some d \<Rightarrow> if 10 * n + d > maxVal then (maxVal, Some ErrRange)
                  else parse_uint_loop maxVal (10 * n + d) cs)"

definition ParseUint :: "nat \<Rightarrow> string \<Rightarrow> int \<times> num_error option" where
  "ParseUint bits s =
     (if s = [] then (0, Some ErrSyntax) else parse_uint_loop (2 ^ bits - 1) 0 s)"

fun int_of_uint :: "bool \<Rightarrow> int \<Rightarrow> int \<times> num_error option \<Rightarrow> int \<times> num_error option" where
  "int_of_uint neg cutoff (un, Some ErrSyntax) = (0, Some ErrSyntax)"
| "int_of_uint neg cutoff (un, e) =
     (if \<not> neg \<and> un \<ge> cutoff then (cutoff - 1, Some ErrRange)
      else if neg \<and> un > cutoff then (- cutoff, Some ErrRange)
      else ((if neg then - un else un), None))"

definition ParseInt :: "nat \<Rightarrow> string \<Rightarrow> int \<times> num_error option" where
  "ParseInt bits s =
     (case s of
        [] \<Rightarrow> (0, Some ErrSyntax)
      | c # cs \<Rightarrow>
          int_of_uint (c = CHR ''-'') (2 ^ (bits - 1))
            (ParseUint bits (if c = CHR ''+'' \<or> c = CHR ''-'' then cs else s)))"

definition ParseBool :: "string \<Rightarrow> bool \<times> num_error option" where
  "ParseBool s =
     (if s \<in> {''1'', ''t'', ''T'', ''true'', ''TRUE'', ''True''} then (True, None)
      else if s \<in> {''0'', ''f'', ''F'', ''false'', ''FALSE'', ''False''} then (False, None)
      else (False, Some ErrSyntax))"

lemma digit_val_bounds: "digit_val c = Some d \<Longrightarrow> 0 \<le> d \<and> d \<le> 9"
  by (auto simp: digit_val_def Let_def split: if_splits)

lemma parse_uint_loop_bounds:
  "0 \<le> n \<Longrightarrow> n \<le> maxVal \<Longrightarrow>
   0 \<le> fst (parse_uint_loop maxVal n s) \<and> fst (parse_uint_loop maxVal n s) \<le> maxVal"
proof (induction maxVal n s rule: parse_uint_loop.induct)
  case (2 maxVal n c cs)
  then show ?case
    by (fastforce split: option.splits dest: digit_val_bounds)
qed simp

lemma ParseUint_bounds: "0 \<le> fst (ParseUint bits s) \<and> fst (ParseUint bits s) \<le> 2 ^ bits - 1"
  using parse_uint_loop_bounds [of 0 "2 ^ bits - 1" s] by (simp add: ParseUint_def)

text \<open>Every value \<open>ParseInt\<close> returns, also beside an error, fits the requested width.\<close>

lemma int_of_uint_bounds:
  "0 \<le> un \<Longrightarrow> 0 < cutoff \<Longrightarrow>
   - cutoff \<le> fst (int_of_uint neg cutoff (un, e)) \<and> fst (int_of_uint neg cutoff (un, e)) < cutoff"
  by (induction neg cutoff "(un, e)" rule: int_of_uint.induct) auto

lemma ParseInt_bounds:
  "- (2 ^ (bits - 1)) \<le> fst (ParseInt bits s) \<and> fst (ParseInt bits s) < 2 ^ (bits - 1)"
proof (cases s)
  case (Cons c cs)
  let ?body = "if c = CHR ''+'' \<or> c = CHR ''-'' then cs else s"
  obtain un e where pu: "ParseUint bits ?body = (un, e)" by fastforce
  then have "0 \<le> un" using ParseUint_bounds [of bits ?body] by simp
  then show ?thesis
    using Cons pu int_of_uint_bounds [of un "2 ^ (bits - 1)" "c = CHR ''-''" e]
    by (simp only: ParseInt_def list.case) simp
qed (simp add: ParseInt_def)

lemma ParseInt_error_Nil [simp]: "ParseInt bits [] = (0, Some ErrSyntax)"
  by (simp add: ParseInt_def)

section \<open>Decimal output\<close>

definition digit_char :: "int \<Rightarrow> char" where
  "digit_char d = char_of (48 + d)"

function show_uint :: "int \<Rightarrow> string" where
  "show_uint n =
     (if n < 10 then [digit_char n] else show_uint (n div 10) @ [digit_char (n mod 10)])"
  by pat_completeness auto
termination by (relation "measure nat") auto

declare show_uint.simps [simp del]

definition show_int :: "int \<Rightarrow> string" where
  "show_int i = (if i < 0 then CHR ''-'' # show_uint (- i) else show_uint i)"

text \<open>The verb \<open>%02d\<close>: padded with zeros to width 2, the sign counted.\<close>

definition show_int02 :: "int \<Rightarrow> string" where
  "show_int02 i =
     (if 0 \<le> i \<and> i < 10 then CHR ''0'' # show_int i else show_int i)"

lemma of_char_digit_char: "0 \<le> d \<Longrightarrow> d < 10 \<Longrightarrow> of_char (digit_char d) = 48 + d"
  by (simp add: digit_char_def)

lemma digit_val_digit_char: "0 \<le> d \<Longrightarrow> d < 10 \<Longrightarrow> digit_val (digit_char d) = Some d"
  by (simp add: digit_val_def of_char_digit_char)

lemma show_uint_not_Nil [simp]: "show_uint n \<noteq> []"
  by (subst show_uint.simps) simp

lemma show_int_not_Nil [simp]: "show_int n \<noteq> []"
  by (simp add: show_int_def)

text \<open>Reading back what was written: \<open>ParseInt\<close> inverts the verb \<open>%d\<close> on the values of its width.\<close>

lemma parse_uint_loop_append:
  "parse_uint_loop M n s = (v, None) \<Longrightarrow>
   parse_uint_loop M n (s @ t) = parse_uint_loop M v t"
  by (induction M n s rule: parse_uint_loop.induct) (auto split: option.splits if_splits)

lemma parse_uint_loop_show:
  "0 \<le> n \<Longrightarrow> n \<le> M \<Longrightarrow> parse_uint_loop M 0 (show_uint n) = (n, None)"
proof (induction n rule: show_uint.induct)
  case (1 n)
  show ?case
  proof (cases "n < 10")
    case True
    with 1 show ?thesis by (simp add: show_uint.simps [of n] digit_val_digit_char)
  next
    case False
    with 1 have "parse_uint_loop M 0 (show_uint (n div 10)) = (n div 10, None)" by simp
    then have "parse_uint_loop M 0 (show_uint n) = parse_uint_loop M (n div 10) [digit_char (n mod 10)]"
      using False by (simp add: show_uint.simps [of n] parse_uint_loop_append)
    then show ?thesis using 1(3) by (simp add: digit_val_digit_char)
  qed
qed

lemma show_uint_digits: "0 \<le> n \<Longrightarrow> c \<in> set (show_uint n) \<Longrightarrow> \<exists>d. 0 \<le> d \<and> d < 10 \<and> c = digit_char d"
proof (induction n rule: show_uint.induct)
  case (1 n)
  show ?case
  proof (cases "n < 10")
    case True
    with 1(2,3) show ?thesis by (auto simp: show_uint.simps [of n])
  next
    case False
    then consider "c \<in> set (show_uint (n div 10))" | "c = digit_char (n mod 10)"
      using 1(3) by (auto simp: show_uint.simps [of n])
    then show ?thesis
    proof cases
      case 1
      with "1.IH" False show ?thesis by simp
    next
      case 2
      then show ?thesis by (metis pos_mod_bound pos_mod_sign zero_less_numeral)
    qed
  qed
qed

lemma digit_char_neq:
  assumes "0 \<le> d" and "d < 10" and "of_char c < (48::int) \<or> 57 < (of_char c :: int)"
  shows "digit_char d \<noteq> c"
  using assms of_char_digit_char [OF assms(1,2)] by auto

lemma ParseInt_show_int:
  assumes "0 < bits" and "- (2 ^ (bits - 1)) \<le> n" and "n < 2 ^ (bits - 1)"
  shows "ParseInt bits (show_int n) = (n, None)"
proof -
  have pw: "(2::int) ^ bits = 2 * 2 ^ (bits - 1)"
    using assms(1) by (metis Suc_diff_1 power_Suc)
  show ?thesis
  proof (cases "n < 0")
    case True
    have "1 \<le> (2::int) ^ (bits - 1)" by simp
    then have "parse_uint_loop (2 ^ bits - 1) 0 (show_uint (- n)) = (- n, None)"
      using True assms pw by (intro parse_uint_loop_show) linarith+
    then show ?thesis using True assms(2) by (simp add: ParseInt_def show_int_def ParseUint_def)
  next
    case False
    obtain c cs where s: "show_uint n = c # cs" by (cases "show_uint n") auto
    have "c \<in> set (show_uint n)" using s by simp
    then obtain d where "0 \<le> d" "d < 10" "c = digit_char d"
      using show_uint_digits False by (metis not_less)
    then have "c \<noteq> CHR ''+''" "c \<noteq> CHR ''-''" by (simp_all add: digit_char_neq)
    moreover have "parse_uint_loop (2 ^ bits - 1) 0 (show_uint n) = (n, None)"
      using False assms pw by (intro parse_uint_loop_show) linarith+
    ultimately show ?thesis
      using False assms s by (simp add: ParseInt_def show_int_def ParseUint_def)
  qed
qed

section \<open>Base64\<close>

text \<open>
  \<open>base64.StdEncoding.DecodeString\<close>: carriage returns and newlines are skipped, then groups of four
  characters give three bytes; a last group may be padded with one or two \<open>=\<close>.
\<close>

definition b64_val :: "char \<Rightarrow> int option" where
  "b64_val c =
     (let n = of_char c :: int
      in if 65 \<le> n \<and> n \<le> 90 then Some (n - 65)
         else if 97 \<le> n \<and> n \<le> 122 then Some (n - 71)
         else if 48 \<le> n \<and> n \<le> 57 then Some (n + 4)
         else if c = CHR ''+'' then Some 62
         else if c = CHR ''/'' then Some 63
         else None)"

fun b64_groups :: "string \<Rightarrow> bytes option" where
  "b64_groups [] = Some []"
| "b64_groups (a # b # c # d # s) =
     (case (b64_val a, b64_val b) of
        (Some x, Some y) \<Rightarrow>
          if c = CHR ''='' then
            (if d = CHR ''='' \<and> s = [] then Some [char_of (4 * x + y div 16)] else None)
          else (case b64_val c of
             None \<Rightarrow> None
           | Some z \<Rightarrow>
               if d = CHR ''='' then
                 (if s = [] then Some [char_of (4 * x + y div 16), char_of (16 * (y mod 16) + z div 4)]
                  else None)
               else (case b64_val d of
                  None \<Rightarrow> None
                | Some t \<Rightarrow>
                    map_option (\<lambda>r. char_of (4 * x + y div 16) # char_of (16 * (y mod 16) + z div 4)
                        # char_of (64 * (z mod 4) + t) # r) (b64_groups s)))
      | _ \<Rightarrow> None)"
| "b64_groups s = None"

definition b64_decode :: "string \<Rightarrow> bytes option" where
  "b64_decode s = b64_groups (filter (\<lambda>c. c \<noteq> CHR 0x0A \<and> c \<noteq> CHR 0x0D) s)"

end
