(* ===== verification/Go_Float.thy ===== *)
theory Go_Float
  imports Go_Strings
begin

text \<open>
  IEEE 754 binary64 as the program meets it: \<open>encoding/json\<close> reads every number of a payload into
  a \<open>float64\<close> (\<open>strconv.ParseFloat\<close>, to nearest, ties to even), writes it back with the fewest
  digits that read as the same value, and \<open>fmt\<close> prints it with the verb \<open>%v\<close>. A finite value
  \<open>Fin neg m e\<close> is \<open>\<plusminus> m * 2 ^ e\<close>. All computations are on integers, so they evaluate in the
  kernel.
\<close>

section \<open>Rounding to 53 bits\<close>

datatype float64 = Fin bool int int | Inf bool | NaN

fun is_finite :: "float64 \<Rightarrow> bool" where
  "is_finite (Fin _ _ _) = True"
| "is_finite _ = False"

function bitlen :: "int \<Rightarrow> int" where
  "bitlen n = (if n \<le> 0 then 0 else 1 + bitlen (n div 2))"
  by pat_completeness auto
termination by (relation "measure nat") auto

declare bitlen.simps [simp del]

definition round_half_even :: "int \<Rightarrow> int \<Rightarrow> int" where
  "round_half_even num den =
     (let q = num div den; r = num mod den
      in if 2 * r < den then q else if den < 2 * r then q + 1
         else if even q then q else q + 1)"

text \<open>
  \<open>round_ratio num den\<close> is the binary64 nearest to \<open>num / den\<close> for positive arguments, as mantissa
  and exponent; \<open>None\<close> when the value is out of range.
\<close>

definition round_ratio :: "int \<Rightarrow> int \<Rightarrow> (int \<times> int) option" where
  "round_ratio num den =
     (let k0 = max (bitlen num - bitlen den - 53) (- 1074);
          scaled = (\<lambda>k. if k \<ge> 0 then (num, den * 2 ^ nat k) else (num * 2 ^ nat (- k), den));
          q0 = fst (scaled k0) div snd (scaled k0);
          k = (if q0 \<ge> 2 ^ 53 then k0 + 1 else k0);
          m = round_half_even (fst (scaled k)) (snd (scaled k));
          (m', k') = (if m = 2 ^ 53 then (2 ^ 52, k + 1) else (m, k))
      in if k' > 971 then None else if m' = 0 then Some (0, 0) else Some (m', k'))"

definition round_decimal :: "int \<Rightarrow> int \<Rightarrow> (int \<times> int) option" where
  "round_decimal d e =
     (if d = 0 then Some (0, 0)
      else if e \<ge> 0 then round_ratio (d * 10 ^ nat e) 1
      else round_ratio d (10 ^ nat (- e)))"

text \<open>\<open>strconv.ParseFloat\<close> on the literal \<open>\<plusminus> d * 10 ^ e\<close>; a range error is \<open>None\<close>.\<close>

definition float_of_decimal :: "bool \<Rightarrow> int \<Rightarrow> int \<Rightarrow> float64 option" where
  "float_of_decimal neg d e = map_option (\<lambda>(m, k). Fin neg m k) (round_decimal d e)"

lemma float_of_decimal_finite: "float_of_decimal neg d e = Some f \<Longrightarrow> is_finite f"
  by (auto simp: float_of_decimal_def)

lemma round_half_even_bounds:
  assumes "0 < den"
  shows "2 * \<bar>round_half_even num den * den - num\<bar> \<le> den"
proof -
  define q r where "q = num div den" and "r = num mod den"
  have num: "num = q * den + r" by (simp add: q_def r_def)
  have r: "0 \<le> r" "r < den" using assms by (simp_all add: r_def)
  have "round_half_even num den * den - num
      = (if 2 * r < den \<or> (2 * r = den \<and> even q) then - r else den - r)"
    unfolding round_half_even_def Let_def q_def [symmetric] r_def [symmetric]
    by (simp add: num distrib_right)
  then show ?thesis using r by (auto split: if_splits)
qed

lemma round_half_even_ge:
  assumes "0 < den" and "n * den \<le> num"
  shows "n \<le> round_half_even num den"
proof -
  have "n \<le> num div den"
    using assms by (metis mult.commute nonzero_mult_div_cancel_left order_less_irrefl zdiv_mono1)
  then show ?thesis by (simp add: round_half_even_def Let_def)
qed

section \<open>Shortest decimal digits\<close>

function dec_up :: "int \<Rightarrow> int \<Rightarrow> int" where
  "dec_up num den = (if den \<le> 0 \<or> num < den then 0 else 1 + dec_up num (den * 10))"
  by pat_completeness auto
termination by (relation "measure (\<lambda>(num, den). nat (num + 1 - den))") auto

function dec_down :: "int \<Rightarrow> int \<Rightarrow> int" where
  "dec_down num den = (if num \<le> 0 \<or> den \<le> num * 10 then 0 else dec_down (num * 10) den - 1)"
  by pat_completeness auto
termination by (relation "measure (\<lambda>(num, den). nat (den - num))") auto

declare dec_up.simps [simp del] dec_down.simps [simp del]

text \<open>The decimal point: \<open>10 ^ (dp - 1) \<le> num / den < 10 ^ dp\<close>.\<close>

definition decimal_point :: "int \<Rightarrow> int \<Rightarrow> int" where
  "decimal_point num den = (if num < den then dec_down num den else dec_up num den)"

definition shortest_candidate :: "int \<Rightarrow> int \<Rightarrow> int \<Rightarrow> int \<Rightarrow> int \<Rightarrow> int option" where
  "shortest_candidate m k num den p =
     (let (a, b) = (if p \<ge> 0 then (num * 10 ^ nat p, den) else (num, den * 10 ^ nat (- p)));
          lo = a div b;
          lo_ok = (round_decimal lo (- p) = Some (m, k));
          hi_ok = (round_decimal (lo + 1) (- p) = Some (m, k))
      in if lo_ok \<and> hi_ok then Some (if 2 * (a - lo * b) \<le> b then lo else lo + 1)
         else if lo_ok then Some lo
         else if hi_ok then Some (lo + 1)
         else None)"

function shortest_from :: "int \<Rightarrow> int \<Rightarrow> int \<Rightarrow> int \<Rightarrow> int \<Rightarrow> int \<Rightarrow> int \<times> int" where
  "shortest_from m k num den dp n =
     (case shortest_candidate m k num den (n - dp) of
        Some d \<Rightarrow> (d, dp - n)
      | None \<Rightarrow> if n \<ge> 17 then (round_half_even (num * 10 ^ nat (n - dp)) (den * 10 ^ nat (dp - n)), dp - n)
                else shortest_from m k num den dp (n + 1))"
  by pat_completeness auto
termination by (relation "measure (\<lambda>(m, k, num, den, dp, n). nat (17 - n))") auto

declare shortest_from.simps [simp del]

text \<open>
  \<open>shortest m k\<close> is the digit string without trailing zeros and the position of the decimal
  point, so that the value is \<open>0.ds * 10 ^ dp\<close>. Zero has no digits and point 0.
\<close>

definition shortest :: "int \<Rightarrow> int \<Rightarrow> string \<times> int" where
  "shortest m k =
     (if m = 0 then ([], 0)
      else let (num, den) = (if k \<ge> 0 then (m * 2 ^ nat k, 1) else (m, 2 ^ nat (- k)));
               (d, e) = shortest_from m k num den (decimal_point num den) 1;
               ds = show_int d
           in (rev (dropWhile (\<lambda>c. c = CHR ''0'') (rev ds)), e + int (length ds)))"

section \<open>Formatting\<close>

definition fmtF :: "string \<Rightarrow> int \<Rightarrow> string" where
  "fmtF ds dp =
     (let int_part = (if dp > 0 then take (nat dp) (ds @ replicate (nat dp - length ds) (CHR ''0'')) else ''0'');
          frac = (if dp > 0 then drop (nat dp) ds else if ds = [] then [] else replicate (nat (- dp)) (CHR ''0'') @ ds)
      in int_part @ (if frac = [] then [] else CHR ''.'' # frac))"

text \<open>The exponent has at least \<open>w\<close> digits: two for \<open>fmt\<close>, one after the clean-up of \<open>encoding/json\<close>.\<close>

definition fmtE :: "nat \<Rightarrow> string \<Rightarrow> int \<Rightarrow> string" where
  "fmtE w ds dp =
     (let first = (case ds of [] \<Rightarrow> ''0'' | c # _ \<Rightarrow> [c]);
          rest = (case ds of [] \<Rightarrow> [] | _ # cs \<Rightarrow> cs);
          e = (if ds = [] then 0 else dp - 1);
          digits = show_int \<bar>e\<bar>
      in first @ (if rest = [] then [] else CHR ''.'' # rest)
         @ CHR ''e'' # (if e < 0 then CHR ''-'' else CHR ''+'')
         # replicate (w - length digits) (CHR ''0'') @ digits)"

definition sign_str :: "bool \<Rightarrow> string" where
  "sign_str neg = (if neg then ''-'' else [])"

text \<open>
  \<open>encoding/json\<close> uses the exponent form below \<open>1e-6\<close> and from \<open>1e21\<close> on; an infinity or a NaN is
  an error (\<open>None\<close>). The verb \<open>%v\<close> is \<open>%g\<close> with the shortest precision: the exponent form is used
  for a decimal exponent below -4 or from 6 on.
\<close>

fun json_float :: "float64 \<Rightarrow> string option" where
  "json_float (Fin neg m k) =
     (let (ds, dp) = shortest m k
      in Some (sign_str neg @ (if ds \<noteq> [] \<and> (dp < - 5 \<or> 21 < dp) then fmtE 1 ds dp else fmtF ds dp)))"
| "json_float _ = None"

fun fmt_v_float :: "float64 \<Rightarrow> string" where
  "fmt_v_float (Fin neg m k) =
     (let (ds, dp) = shortest m k
      in sign_str neg @ (if ds \<noteq> [] \<and> (dp - 1 < - 4 \<or> 6 \<le> dp - 1) then fmtE 2 ds dp else fmtF ds dp))"
| "fmt_v_float (Inf neg) = (if neg then ''-Inf'' else ''+Inf'')"
| "fmt_v_float NaN = ''NaN''"

section \<open>Product with a constant, truncated\<close>

text \<open>
  \<open>int(float64(n) * c)\<close> for an integer \<open>n\<close> that a \<open>float64\<close> holds exactly and a constant
  \<open>c = cm * 2 ^ (- ck)\<close>: one rounding to 53 bits, then truncation.
\<close>

definition round53 :: "int \<Rightarrow> int" where
  "round53 p =
     (let s = bitlen p - 53
      in if s \<le> 0 then p else round_half_even p (2 ^ nat s) * 2 ^ nat s)"

definition trunc_float_mul :: "int \<Rightarrow> int \<Rightarrow> nat \<Rightarrow> int" where
  "trunc_float_mul n cm ck = round53 (n * cm) div 2 ^ ck"

lemma bitlen_nonneg: "0 \<le> bitlen n"
proof (induction n rule: bitlen.induct)
  case (1 n)
  then show ?case by (cases "n \<le> 0") (simp_all add: bitlen.simps [of n])
qed

lemma bitlen_le: "0 < n \<Longrightarrow> 2 ^ nat (bitlen n - 1) \<le> n"
proof (induction n rule: bitlen.induct)
  case (1 n)
  show ?case
  proof (cases "n = 1")
    case True
    then show ?thesis by (simp add: bitlen.simps)
  next
    case False
    with 1 have pos: "0 < n div 2" by simp
    with 1 have IH: "2 ^ nat (bitlen (n div 2) - 1) \<le> n div 2" by simp
    have "bitlen (n div 2) \<ge> 1" using pos bitlen_nonneg [of "n div 2 div 2"]
      by (simp add: bitlen.simps [of "n div 2"])
    then have "nat (bitlen n - 1) = Suc (nat (bitlen (n div 2) - 1))"
      using 1(2) by (simp add: bitlen.simps [of n])
    with IH show ?thesis by simp
  qed
qed

lemma round53_props:
  assumes "0 \<le> p" and "p < 2 ^ (53 + b)"
  shows "2 * \<bar>round53 p - p\<bar> \<le> 2 ^ b"
    and "(2 ^ b) dvd n \<Longrightarrow> n \<le> p \<Longrightarrow> n \<le> round53 p"
proof -
  let ?s = "bitlen p - 53"
  have sb: "nat ?s \<le> b"
  proof (cases "p = 0")
    case True
    then show ?thesis by (simp add: bitlen.simps)
  next
    case False
    then have "2 ^ nat (bitlen p - 1) \<le> p" using assms(1) by (simp add: bitlen_le)
    with assms(2) have "(2::int) ^ nat (bitlen p - 1) < 2 ^ (53 + b)" by linarith
    then have "nat (bitlen p - 1) < 53 + b" by (rule power_less_imp_less_exp [rotated]) simp
    then show ?thesis by linarith
  qed
  then have pw: "(2::int) ^ nat ?s \<le> 2 ^ b" by simp
  show "2 * \<bar>round53 p - p\<bar> \<le> 2 ^ b"
    using order_trans [OF round_half_even_bounds [of "2 ^ nat ?s" p] pw]
    by (simp add: round53_def Let_def del: power_increasing_iff)
  assume dvd: "(2 ^ b) dvd n" and le: "n \<le> p"
  have "(2 ^ nat ?s :: int) dvd 2 ^ b" using sb by (simp add: le_imp_power_dvd)
  with dvd obtain t where t: "n = t * 2 ^ nat ?s"
    by (metis dvd_def dvd_trans mult.commute)
  then have "t \<le> round_half_even p (2 ^ nat ?s)"
    using le by (intro round_half_even_ge) simp_all
  then show "n \<le> round53 p"
    using t le by (cases "?s \<le> 0") (simp_all add: round53_def Let_def)
qed

end
