(* ===== verification/Go_Json.thy ===== *)
theory Go_Json
  imports Go_Float "HOL-Library.Char_ord" "HOL-Library.List_Lexorder"
begin

text \<open>
  What the program uses of \<open>encoding/json\<close> and of the verb \<open>%v\<close> of \<open>fmt\<close>. A payload is parsed into a
  syntax tree (\<open>json\<close>), which is decoded into a Go value: \<open>gv\<close> is the type of the values behind an
  \<open>interface{}\<close>, and a non-nil \<open>map[string]interface{}\<close> is a list of key and value pairs whose keys
  strictly increase, so that equality of models is equality of maps. \<open>Marshal\<close> writes such a value
  in the order of its keys, with the escapes of the default encoder (HTML characters, U+2028,
  U+2029, invalid UTF-8).
\<close>

section \<open>Go maps as sorted association lists\<close>

type_synonym 'v smap = "(string \<times> 'v) list"

fun map_put :: "string \<Rightarrow> 'v \<Rightarrow> 'v smap \<Rightarrow> 'v smap" where
  "map_put k v [] = [(k, v)]"
| "map_put k v (p # m) =
     (if fst p < k then p # map_put k v m
      else if fst p = k then (k, v) # m
      else (k, v) # p # m)"

definition map_del :: "string \<Rightarrow> 'v smap \<Rightarrow> 'v smap" where
  "map_del k m = filter (\<lambda>p. fst p \<noteq> k) m"

abbreviation map_get :: "'v smap \<Rightarrow> string \<Rightarrow> 'v option" where
  "map_get m k \<equiv> map_of m k"

definition keys_sorted :: "'v smap \<Rightarrow> bool" where
  "keys_sorted m = sorted_wrt (<) (map fst m)"

lemma keys_sorted_Nil [simp]: "keys_sorted []"
  by (simp add: keys_sorted_def)

lemma keys_sorted_Cons [simp]:
  "keys_sorted (p # m) \<longleftrightarrow> (\<forall>q \<in> set m. fst p < fst q) \<and> keys_sorted m"
  by (auto simp: keys_sorted_def)

lemma set_map_put: "set (map_put k v m) \<subseteq> insert (k, v) (set m)"
  by (induction m) auto

lemma fst_set_map_put: "fst ` set (map_put k v m) = insert k (fst ` set m)"
  by (induction m) auto

lemma keys_sorted_map_put [simp]: "keys_sorted m \<Longrightarrow> keys_sorted (map_put k v m)"
proof (induction m)
  case (Cons p m)
  have "\<forall>q \<in> set (map_put k v m). fst p < fst q" if "fst p < k"
    using that Cons.prems set_map_put [of k v m] by auto
  then show ?case using Cons by (auto simp: not_less less_le order.trans)
qed simp

lemma keys_sorted_map_del [simp]: "keys_sorted m \<Longrightarrow> keys_sorted (map_del k m)"
  by (induction m) (auto simp: map_del_def)

lemma map_get_put [simp]:
  "keys_sorted m \<Longrightarrow> map_get (map_put k v m) k' = (if k' = k then Some v else map_get m k')"
proof (induction m)
  case (Cons p m)
  then have "k < fst p \<Longrightarrow> map_get m k = None"
    by (force simp: map_of_eq_None_iff)
  with Cons show ?case by (cases p) auto
qed simp

lemma map_get_del [simp]: "map_get (map_del k m) k' = (if k' = k then None else map_get m k')"
  by (induction m) (auto simp: map_del_def)

lemma set_map_del: "set (map_del k m) \<subseteq> set m"
  by (auto simp: map_del_def)

section \<open>Syntax trees and Go values\<close>

text \<open>
  A number keeps its literal: sign, integer digits, fraction digits (empty without a fraction) and
  exponent.
\<close>

datatype json =
    JNull
  | JBool bool
  | JNum bool string string "int option"
  | JStr string
  | JArr "json list"
  | JObj "(string \<times> json) list"

datatype gv =
    VNil
  | VBool bool
  | VInt int
  | VFloat float64
  | VString string
  | VSlice "gv list"
  | VMap "(string \<times> gv) list"

type_synonym gomap = "gv smap"

section \<open>UTF-8\<close>

definition byte_in :: "int \<Rightarrow> int \<Rightarrow> char \<Rightarrow> bool" where
  "byte_in lo hi c \<longleftrightarrow> lo \<le> of_char c \<and> (of_char c :: int) \<le> hi"

text \<open>The length of the valid multi-byte sequence at the head of a string, 0 when there is none.\<close>

definition utf8_len :: "string \<Rightarrow> nat" where
  "utf8_len s =
     (case s of
        b0 # b1 # s2 \<Rightarrow>
          if byte_in 0xC2 0xDF b0 \<and> byte_in 0x80 0xBF b1 then 2
          else (case s2 of
             b2 # s3 \<Rightarrow>
               if byte_in 0x80 0xBF b2 \<and>
                  (byte_in 0xE0 0xE0 b0 \<and> byte_in 0xA0 0xBF b1 \<or>
                   byte_in 0xE1 0xEC b0 \<and> byte_in 0x80 0xBF b1 \<or>
                   byte_in 0xED 0xED b0 \<and> byte_in 0x80 0x9F b1 \<or>
                   byte_in 0xEE 0xEF b0 \<and> byte_in 0x80 0xBF b1) then 3
               else (case s3 of
                  b3 # _ \<Rightarrow>
                    if byte_in 0x80 0xBF b2 \<and> byte_in 0x80 0xBF b3 \<and>
                       (byte_in 0xF0 0xF0 b0 \<and> byte_in 0x90 0xBF b1 \<or>
                        byte_in 0xF1 0xF3 b0 \<and> byte_in 0x80 0xBF b1 \<or>
                        byte_in 0xF4 0xF4 b0 \<and> byte_in 0x80 0x8F b1) then 4
                    else 0
                | [] \<Rightarrow> 0)
           | [] \<Rightarrow> 0)
      | _ \<Rightarrow> 0)"

definition replacement :: string where
  "replacement = [CHR 0xEF, CHR 0xBF, CHR 0xBD]"

definition encode_rune :: "int \<Rightarrow> string" where
  "encode_rune r =
     (if r < 0x80 then [char_of r]
      else if r < 0x800 then [char_of (0xC0 + r div 64), char_of (0x80 + r mod 64)]
      else if r < 0x10000 then
        [char_of (0xE0 + r div 4096), char_of (0x80 + r div 64 mod 64), char_of (0x80 + r mod 64)]
      else
        [char_of (0xF0 + r div 262144), char_of (0x80 + r div 4096 mod 64),
         char_of (0x80 + r div 64 mod 64), char_of (0x80 + r mod 64)])"

section \<open>The parser\<close>

definition is_ws :: "char \<Rightarrow> bool" where
  "is_ws c \<longleftrightarrow> c = CHR 0x20 \<or> c = CHR 0x09 \<or> c = CHR 0x0A \<or> c = CHR 0x0D"

definition skip_ws :: "string \<Rightarrow> string" where
  "skip_ws s = dropWhile is_ws s"

definition is_digit :: "char \<Rightarrow> bool" where
  "is_digit c \<longleftrightarrow> byte_in 48 57 c"

definition hex_val :: "char \<Rightarrow> int option" where
  "hex_val c =
     (let n = of_char c :: int
      in if 48 \<le> n \<and> n \<le> 57 then Some (n - 48)
         else if 97 \<le> n \<and> n \<le> 102 then Some (n - 87)
         else if 65 \<le> n \<and> n \<le> 70 then Some (n - 55)
         else None)"

text \<open>\<open>u4 s\<close> reads four hexadecimal digits at the head of \<open>s\<close>.\<close>

definition u4 :: "string \<Rightarrow> int option" where
  "u4 s =
     (case s of
        a # b # c # d # _ \<Rightarrow>
          (case (hex_val a, hex_val b, hex_val c, hex_val d) of
             (Some x, Some y, Some z, Some t) \<Rightarrow> Some (4096 * x + 256 * y + 16 * z + t)
           | _ \<Rightarrow> None)
      | _ \<Rightarrow> None)"

text \<open>
  The rune of a \<open>\u\<close> escape whose digits have value \<open>r\<close>, with the text after the digits: a valid
  surrogate pair consumes a second escape, a lone surrogate is the replacement character.
\<close>

definition u_escape :: "int \<Rightarrow> string \<Rightarrow> string \<times> string" where
  "u_escape r s =
     (if 0xD800 \<le> r \<and> r < 0xE000 then
        (case s of
           b # u # t \<Rightarrow>
             (case (if b = CHR 0x5C \<and> u = CHR ''u'' then u4 t else None) of
                Some r1 \<Rightarrow>
                  if r < 0xDC00 \<and> 0xDC00 \<le> r1 \<and> r1 < 0xE000
                  then (encode_rune ((r - 0xD800) * 1024 + (r1 - 0xDC00) + 0x10000), drop 4 t)
                  else (replacement, s)
              | None \<Rightarrow> (replacement, s))
         | _ \<Rightarrow> (replacement, s))
      else (encode_rune r, s))"

definition simple_escape :: "char \<Rightarrow> char option" where
  "simple_escape e =
     (if e = CHR 0x22 \<or> e = CHR 0x5C \<or> e = CHR ''/'' then Some e
      else if e = CHR ''b'' then Some (CHR 0x08)
      else if e = CHR ''f'' then Some (CHR 0x0C)
      else if e = CHR ''n'' then Some (CHR 0x0A)
      else if e = CHR ''r'' then Some (CHR 0x0D)
      else if e = CHR ''t'' then Some (CHR 0x09)
      else None)"

text \<open>One step inside a string literal: the decoded bytes and the rest of the input.\<close>

definition string_step :: "char \<Rightarrow> string \<Rightarrow> (string \<times> string) option" where
  "string_step c cs =
     (if c = CHR 0x5C then
        (case cs of
           [] \<Rightarrow> None
         | e # es \<Rightarrow>
             (case simple_escape e of
                Some x \<Rightarrow> Some ([x], es)
              | None \<Rightarrow>
                  if e = CHR ''u'' then map_option (\<lambda>r. u_escape r (drop 4 es)) (u4 es) else None))
      else if (of_char c :: int) < 0x20 then None
      else if (of_char c :: int) < 0x80 then Some ([c], cs)
      else if utf8_len (c # cs) = 0 then Some (replacement, cs)
      else Some (take (utf8_len (c # cs)) (c # cs), drop (utf8_len (c # cs) - 1) cs))"

lemma u_escape_length: "length (snd (u_escape r s)) \<le> length s"
  by (auto simp: u_escape_def split: list.splits option.splits)

lemma string_step_length: "string_step c cs = Some (x, r) \<Longrightarrow> length r \<le> length cs"
proof -
  assume step: "string_step c cs = Some (x, r)"
  have "length (snd (u_escape n (drop 4 es))) \<le> Suc (length es)" for n es
    using u_escape_length [of n "drop 4 es"] by simp
  with step show ?thesis
    by (auto simp: string_step_def split: if_splits list.splits option.splits) (metis snd_conv)+
qed

function parse_string :: "string \<Rightarrow> (string \<times> string) option" where
  "parse_string [] = None"
| "parse_string (c # cs) =
     (if c = CHR 0x22 then Some ([], cs)
      else (case string_step c cs of
              None \<Rightarrow> None
            | Some (x, r) \<Rightarrow> map_option (\<lambda>(y, r'). (x @ y, r')) (parse_string r)))"
  by pat_completeness auto
termination
  by (relation "measure length") (auto dest: string_step_length)

text \<open>The digits of an exponent, after its sign.\<close>

fun digits_val :: "string \<Rightarrow> int \<Rightarrow> int" where
  "digits_val [] n = n"
| "digits_val (c # cs) n = digits_val cs (10 * n + (case digit_val c of Some d \<Rightarrow> d | None \<Rightarrow> 0))"

definition parse_exp :: "string \<Rightarrow> (int option \<times> string) option" where
  "parse_exp s =
     (case s of
        e # es \<Rightarrow>
          if e = CHR ''e'' \<or> e = CHR ''E'' then
            (let neg = (es \<noteq> [] \<and> hd es = CHR ''-'');
                 t = (if es \<noteq> [] \<and> (hd es = CHR ''-'' \<or> hd es = CHR ''+'') then tl es else es);
                 ds = takeWhile is_digit t
             in if ds = [] then None
                else Some (Some (if neg then - digits_val ds 0 else digits_val ds 0), dropWhile is_digit t))
          else Some (None, s)
      | [] \<Rightarrow> Some (None, s))"

definition parse_frac :: "string \<Rightarrow> (string \<times> string) option" where
  "parse_frac s =
     (case s of
        c # cs \<Rightarrow>
          if c = CHR ''.'' then
            (if takeWhile is_digit cs = [] then None
             else Some (takeWhile is_digit cs, dropWhile is_digit cs))
          else Some ([], s)
      | [] \<Rightarrow> Some ([], s))"

definition parse_int_part :: "string \<Rightarrow> (string \<times> string) option" where
  "parse_int_part s =
     (case s of
        [] \<Rightarrow> None
      | c # cs \<Rightarrow>
          if c = CHR ''0'' then Some (''0'', cs)
          else if is_digit c then Some (takeWhile is_digit s, dropWhile is_digit s)
          else None)"

definition parse_number :: "string \<Rightarrow> (json \<times> string) option" where
  "parse_number s =
     (let neg = (s \<noteq> [] \<and> hd s = CHR ''-''); t = (if neg then tl s else s)
      in (case parse_int_part t of
            None \<Rightarrow> None
          | Some (ip, r1) \<Rightarrow>
              (case parse_frac r1 of
                 None \<Rightarrow> None
               | Some (fp, r2) \<Rightarrow>
                   (case parse_exp r2 of
                      None \<Rightarrow> None
                    | Some (ex, r3) \<Rightarrow> Some (JNum neg ip fp ex, r3)))))"

definition parse_literal :: "string \<Rightarrow> (json \<times> string) option" where
  "parse_literal s =
     (if HasPrefix s ''null'' then Some (JNull, drop 4 s)
      else if HasPrefix s ''true'' then Some (JBool True, drop 4 s)
      else if HasPrefix s ''false'' then Some (JBool False, drop 5 s)
      else parse_number s)"

definition maxNestingDepth :: nat where
  "maxNestingDepth = 10000"

text \<open>
  The recursive descent, with one unit of fuel per call and the nesting depth of the scanner.
  Twice the length of the input is always enough (\<open>parse_fuel_enough\<close> below).
\<close>

fun parse_value :: "nat \<Rightarrow> nat \<Rightarrow> string \<Rightarrow> (json \<times> string) option"
and parse_elems :: "nat \<Rightarrow> nat \<Rightarrow> string \<Rightarrow> (json list \<times> string) option"
and parse_members :: "nat \<Rightarrow> nat \<Rightarrow> string \<Rightarrow> ((string \<times> json) list \<times> string) option" where
  "parse_value 0 d s = None"
| "parse_value (Suc f) d s =
     (case skip_ws s of
        [] \<Rightarrow> None
      | c # cs \<Rightarrow>
          if c = CHR ''{'' then
            (if \<not> d < maxNestingDepth then None
             else (case skip_ws cs of
                     [] \<Rightarrow> None
                   | b # bs \<Rightarrow>
                       if b = CHR ''}'' then Some (JObj [], bs)
                       else map_option (\<lambda>(ms, r). (JObj ms, r)) (parse_members f (Suc d) (b # bs))))
          else if c = CHR ''['' then
            (if \<not> d < maxNestingDepth then None
             else (case skip_ws cs of
                     [] \<Rightarrow> None
                   | b # bs \<Rightarrow>
                       if b = CHR '']'' then Some (JArr [], bs)
                       else map_option (\<lambda>(vs, r). (JArr vs, r)) (parse_elems f (Suc d) (b # bs))))
          else if c = CHR 0x22 then map_option (\<lambda>(x, r). (JStr x, r)) (parse_string cs)
          else parse_literal (c # cs))"
| "parse_elems 0 d s = None"
| "parse_elems (Suc f) d s =
     (case parse_value f d s of
        None \<Rightarrow> None
      | Some (v, r) \<Rightarrow>
          (case skip_ws r of
             [] \<Rightarrow> None
           | c # cs \<Rightarrow>
               if c = CHR '']'' then Some ([v], cs)
               else if c = CHR '','' then map_option (\<lambda>(vs, r'). (v # vs, r')) (parse_elems f d cs)
               else None))"
| "parse_members 0 d s = None"
| "parse_members (Suc f) d s =
     (case skip_ws s of
        [] \<Rightarrow> None
      | q # qs \<Rightarrow>
          if q \<noteq> CHR 0x22 then None
          else (case parse_string qs of
                  None \<Rightarrow> None
                | Some (k, r) \<Rightarrow>
                    (case skip_ws r of
                       [] \<Rightarrow> None
                     | c # cs \<Rightarrow>
                         if c \<noteq> CHR '':'' then None
                         else (case parse_value f d cs of
                                 None \<Rightarrow> None
                               | Some (v, r') \<Rightarrow>
                                   (case skip_ws r' of
                                      [] \<Rightarrow> None
                                    | e # es \<Rightarrow>
                                        if e = CHR ''}'' then Some ([(k, v)], es)
                                        else if e = CHR '','' then
                                          map_option (\<lambda>(ms, r''). ((k, v) # ms, r'')) (parse_members f d es)
                                        else None)))))"

definition json_parse :: "string \<Rightarrow> json option" where
  "json_parse s =
     (case parse_value (2 * length s + 2) 0 s of
        None \<Rightarrow> None
      | Some (v, r) \<Rightarrow> if skip_ws r = [] then Some v else None)"

section \<open>Decoding into Go values\<close>

fun num_float :: "json \<Rightarrow> float64 option" where
  "num_float (JNum neg ip fp ex) =
     float_of_decimal neg (digits_val (ip @ fp) 0) ((case ex of None \<Rightarrow> 0 | Some e \<Rightarrow> e) - int (length fp))"
| "num_float _ = None"

text \<open>
  Into an \<open>interface{}\<close>: numbers become \<open>float64\<close>, a number out of range is an error, and of a
  repeated key the last value stays.
\<close>

fun to_gv :: "json \<Rightarrow> gv option"
and to_gvs :: "json list \<Rightarrow> gv list option"
and to_fields :: "(string \<times> json) list \<Rightarrow> gomap \<Rightarrow> gomap option" where
  "to_gv JNull = Some VNil"
| "to_gv (JBool b) = Some (VBool b)"
| "to_gv (JNum neg ip fp ex) = map_option VFloat (num_float (JNum neg ip fp ex))"
| "to_gv (JStr s) = Some (VString s)"
| "to_gv (JArr vs) = map_option VSlice (to_gvs vs)"
| "to_gv (JObj ms) = map_option VMap (to_fields ms [])"
| "to_gvs [] = Some []"
| "to_gvs (v # vs) =
     (case to_gv v of None \<Rightarrow> None | Some x \<Rightarrow> map_option (\<lambda>xs. x # xs) (to_gvs vs))"
| "to_fields [] m = Some m"
| "to_fields ((k, v) # ms) m =
     (case to_gv v of None \<Rightarrow> None | Some x \<Rightarrow> to_fields ms (map_put k x m))"

text \<open>Into a \<open>map[string]interface{}\<close>: \<open>null\<close> gives the nil map (\<open>Some None\<close>), an error is \<open>None\<close>.\<close>

fun to_gomap :: "json \<Rightarrow> gomap option option" where
  "to_gomap JNull = Some None"
| "to_gomap (JObj ms) = map_option Some (to_fields ms [])"
| "to_gomap _ = None"

fun to_gomaps :: "json list \<Rightarrow> gomap option list option" where
  "to_gomaps [] = Some []"
| "to_gomaps (v # vs) =
     (case to_gomap v of None \<Rightarrow> None | Some x \<Rightarrow> map_option (\<lambda>xs. x # xs) (to_gomaps vs))"

text \<open>Into a slice of such maps: \<open>null\<close> gives the nil slice, which no caller tells from the empty one.\<close>

fun to_responseBody :: "json \<Rightarrow> gomap option list option" where
  "to_responseBody JNull = Some []"
| "to_responseBody (JArr vs) = to_gomaps vs"
| "to_responseBody _ = None"

section \<open>Encoding\<close>

definition hex_char :: "int \<Rightarrow> char" where
  "hex_char d = (if d < 10 then char_of (48 + d) else char_of (87 + d))"

definition u00 :: "char \<Rightarrow> string" where
  "u00 c = [CHR 0x5C, CHR ''u'', CHR ''0'', CHR ''0'',
            hex_char (of_char c div 16), hex_char (of_char c mod 16)]"

definition ascii_escape :: "char \<Rightarrow> string" where
  "ascii_escape c =
     (if c = CHR 0x22 \<or> c = CHR 0x5C then [CHR 0x5C, c]
      else if c = CHR 0x08 then [CHR 0x5C, CHR ''b'']
      else if c = CHR 0x0C then [CHR 0x5C, CHR ''f'']
      else if c = CHR 0x0A then [CHR 0x5C, CHR ''n'']
      else if c = CHR 0x0D then [CHR 0x5C, CHR ''r'']
      else if c = CHR 0x09 then [CHR 0x5C, CHR ''t'']
      else if (of_char c :: int) < 0x20 \<or> c = CHR ''<'' \<or> c = CHR ''>'' \<or> c = CHR ''&'' then u00 c
      else [c])"

function json_chars :: "string \<Rightarrow> string" where
  "json_chars [] = []"
| "json_chars (c # cs) =
     (if (of_char c :: int) < 0x80 then ascii_escape c @ json_chars cs
      else let n = utf8_len (c # cs)
           in if n = 0 then CHR 0x5C # ''ufffd'' @ json_chars cs
              else if take n (c # cs) = [CHR 0xE2, CHR 0x80, CHR 0xA8]
                then CHR 0x5C # ''u2028'' @ json_chars (drop (n - 1) cs)
              else if take n (c # cs) = [CHR 0xE2, CHR 0x80, CHR 0xA9]
                then CHR 0x5C # ''u2029'' @ json_chars (drop (n - 1) cs)
              else take n (c # cs) @ json_chars (drop (n - 1) cs))"
  by pat_completeness auto
termination by (relation "measure length") auto

definition json_string :: "string \<Rightarrow> string" where
  "json_string s = CHR 0x22 # json_chars s @ [CHR 0x22]"

fun marshal :: "gv \<Rightarrow> string option"
and marshal_items :: "gv list \<Rightarrow> string list option"
and marshal_fields :: "gomap \<Rightarrow> string list option" where
  "marshal VNil = Some ''null''"
| "marshal (VBool b) = Some (if b then ''true'' else ''false'')"
| "marshal (VInt i) = Some (show_int i)"
| "marshal (VFloat x) = json_float x"
| "marshal (VString s) = Some (json_string s)"
| "marshal (VSlice vs) =
     map_option (\<lambda>xs. CHR ''['' # joinStr '','' xs @ '']'') (marshal_items vs)"
| "marshal (VMap m) =
     map_option (\<lambda>xs. CHR ''{'' # joinStr '','' xs @ ''}'') (marshal_fields m)"
| "marshal_items [] = Some []"
| "marshal_items (v # vs) =
     (case marshal v of None \<Rightarrow> None | Some x \<Rightarrow> map_option (\<lambda>xs. x # xs) (marshal_items vs))"
| "marshal_fields [] = Some []"
| "marshal_fields ((k, v) # m) =
     (case marshal v of
        None \<Rightarrow> None
      | Some x \<Rightarrow> map_option (\<lambda>xs. (json_string k @ '':'' @ x) # xs) (marshal_fields m))"

text \<open>\<open>json.Marshal\<close> of a \<open>map[string]interface{}\<close>: the nil map is \<open>null\<close>.\<close>

definition marshal_map :: "gomap option \<Rightarrow> string option" where
  "marshal_map m = (case m of None \<Rightarrow> Some ''null'' | Some kv \<Rightarrow> marshal (VMap kv))"

text \<open>The verb \<open>%v\<close> of \<open>fmt\<close>.\<close>

fun fmt_v :: "gv \<Rightarrow> string"
and fmt_vs :: "gv list \<Rightarrow> string list"
and fmt_fields :: "gomap \<Rightarrow> string list" where
  "fmt_v VNil = ''<nil>''"
| "fmt_v (VBool b) = (if b then ''true'' else ''false'')"
| "fmt_v (VInt i) = show_int i"
| "fmt_v (VFloat x) = fmt_v_float x"
| "fmt_v (VString s) = s"
| "fmt_v (VSlice vs) = CHR ''['' # joinStr '' '' (fmt_vs vs) @ '']''"
| "fmt_v (VMap m) = ''map['' @ joinStr '' '' (fmt_fields m) @ '']''"
| "fmt_vs [] = []"
| "fmt_vs (v # vs) = fmt_v v # fmt_vs vs"
| "fmt_fields [] = []"
| "fmt_fields ((k, v) # m) = (k @ '':'' @ fmt_v v) # fmt_fields m"

end
