(* ===== verification/Go_Json_Facts.thy ===== *)
theory Go_Json_Facts
  imports Go_Json
begin

text \<open>
  Facts about the JSON model that the components rely on: the parser consumes input and its fuel
  is enough, decoded values are well formed and hold finite numbers only, such values always
  marshal, and the text of a marshalled value has no newline and is not empty. The last two are
  what makes the line framing of the chunks sound.
\<close>

section \<open>The parser consumes input\<close>

lemma skip_ws_length [simp]: "length (skip_ws s) \<le> length s"
  by (simp add: skip_ws_def length_dropWhile_le)

lemma skip_ws_Cons_length: "skip_ws s = c # cs \<Longrightarrow> length cs < length s"
  by (metis Suc_le_lessD length_Cons skip_ws_length)

lemma parse_string_length: "parse_string s = Some (x, r) \<Longrightarrow> length r < length s"
proof (induction s arbitrary: x r rule: parse_string.induct)
  case (2 c cs)
  show ?case
  proof (cases "c = CHR 0x22")
    case False
    with 2(2) obtain y t z where step: "string_step c cs = Some (y, t)" and "parse_string t = Some (z, r)"
      by (auto split: option.splits)
    with 2(1) False have "length r < length t" by blast
    with string_step_length [OF step] show ?thesis by simp
  qed (use 2 in simp)
qed simp

lemma parse_number_length: "parse_number s = Some (v, r) \<Longrightarrow> length r < length s"
proof -
  assume "parse_number s = Some (v, r)"
  then obtain ip r1 fp r2 ex where parts:
    "parse_int_part (if s \<noteq> [] \<and> hd s = CHR ''-'' then tl s else s) = Some (ip, r1)"
    "parse_frac r1 = Some (fp, r2)" "parse_exp r2 = Some (ex, r)"
    by (auto simp: parse_number_def Let_def split: option.splits)
  have dw: "length (dropWhile is_digit t) \<le> length t" for t
    by (rule length_dropWhile_le)
  have dwt: "length (dropWhile is_digit (tl t)) \<le> length t" for t
    using dw [of "tl t"] by simp
  have "parse_int_part t = Some (ip, r1) \<Longrightarrow> length r1 < length t" for t
    using dw by (auto simp: parse_int_part_def le_imp_less_Suc split: list.splits if_splits)
  from this [OF parts(1)]
  have "length r1 < length (if s \<noteq> [] \<and> hd s = CHR ''-'' then tl s else s)" .
  moreover have "length r2 \<le> length r1"
    using parts(2) dw by (auto simp: parse_frac_def le_SucI split: list.splits if_splits)
  moreover have "length r \<le> length r2"
    using parts(3) dw dwt by (auto simp: parse_exp_def Let_def le_SucI split: list.splits if_splits)
  ultimately show ?thesis by (auto split: if_splits)
qed

lemma parse_literal_length: "parse_literal s = Some (v, r) \<Longrightarrow> length r < length s"
proof -
  have "length (drop n s) < length s" if "HasPrefix s (p # ps)" "0 < n" for n p ps
    using that by (auto simp: HasPrefix_iff)
  then show "parse_literal s = Some (v, r) \<Longrightarrow> length r < length s"
    by (auto simp: parse_literal_def parse_number_length split: if_splits)
qed

lemma parse_consumes:
  shows "parse_value f d s = Some (v, r) \<Longrightarrow> length r < length s"
    and "parse_elems f d s = Some (vs, r) \<Longrightarrow> length r < length s"
    and "parse_members f d s = Some (ms, r) \<Longrightarrow> length r < length s"
proof (induction f arbitrary: d s v vs ms r)
  case 0
  {
    case 1 then show ?case by simp
  next
    case 2 then show ?case by simp
  next
    case 3 then show ?case by simp
  }
next
  case (Suc f)
  {
    case 1
    then obtain c cs where s: "skip_ws s = c # cs" by (auto split: list.splits)
    have "length r < length (skip_ws s)"
    proof (cases "c = CHR ''{'' \<or> c = CHR ''[''")
      case True
      with 1 s obtain b bs where b: "skip_ws cs = b # bs" by (auto split: list.splits if_splits)
      then have "length bs < length cs" by (rule skip_ws_Cons_length)
      with 1 s b True show ?thesis
        using Suc.IH(2,3) [of "Suc d" "b # bs"] by (force split: if_splits)
    next
      case False
      with 1 s show ?thesis
        using parse_string_length [of cs] parse_literal_length [of "c # cs"]
        by (force split: if_splits)
    qed
    then show ?case using skip_ws_length [of s] by linarith
  next
    case 2
    then obtain v r1 c cs where v: "parse_value f d s = Some (v, r1)" and r1: "skip_ws r1 = c # cs"
      by (auto split: option.splits list.splits)
    have "length cs < length s"
      using Suc.IH(1) [OF v] skip_ws_Cons_length [OF r1] by linarith
    with 2 v r1 show ?case
      using Suc.IH(2) [of d cs] by (fastforce split: if_splits)
  next
    case 3
    then obtain q qs where q: "skip_ws s = q # qs" "q = CHR 0x22"
      by (auto split: list.splits if_splits)
    with 3 obtain k r1 where k: "parse_string qs = Some (k, r1)" by (auto split: option.splits)
    with 3 q obtain c cs where c: "skip_ws r1 = c # cs" "c = CHR '':''" by (auto split: list.splits if_splits)
    with 3 q k obtain v r2 where v: "parse_value f d cs = Some (v, r2)" by (auto split: option.splits)
    with 3 q k c obtain e es where e: "skip_ws r2 = e # es" by (auto split: list.splits)
    have "length es < length s"
      using skip_ws_Cons_length [OF q(1)] parse_string_length [OF k] skip_ws_Cons_length [OF c(1)]
        Suc.IH(1) [OF v] skip_ws_Cons_length [OF e] by linarith
    with 3 q k c v e show ?case
      using Suc.IH(3) [of d es] by (fastforce split: if_splits)
  }
qed

section \<open>The fuel is enough\<close>

lemma parse_fuel_step:
  shows "2 * length s + 1 \<le> f \<Longrightarrow> parse_value (Suc f) d s = parse_value f d s"
    and "2 * length s + 2 \<le> f \<Longrightarrow> parse_elems (Suc f) d s = parse_elems f d s"
    and "2 * length s + 2 \<le> f \<Longrightarrow> parse_members (Suc f) d s = parse_members f d s"
proof (induction f arbitrary: d s)
  case 0
  {
    case 1 then show ?case by simp
  next
    case 2 then show ?case by simp
  next
    case 3 then show ?case by simp
  }
next
  case (Suc f)
  {
    case 1
    have inner: "parse_elems (Suc f) d' (b # bs) = parse_elems f d' (b # bs)
        \<and> parse_members (Suc f) d' (b # bs) = parse_members f d' (b # bs)"
      if "skip_ws s = c # cs" "skip_ws cs = b # bs" for c cs b bs d'
      using 1 skip_ws_Cons_length [OF that(1)] skip_ws_Cons_length [OF that(2)]
      by (intro conjI Suc.IH(2,3)) simp_all
    show ?case
      by (simp only: parse_value.simps(2) [of "Suc f" d s] parse_value.simps(2) [of f d s]) (auto simp del: parse_elems.simps parse_members.simps
        simp: inner split: list.split)
  next
    case 2
    have val: "parse_value (Suc f) d s = parse_value f d s" using 2 by (intro Suc.IH(1)) simp
    have rest: "parse_elems (Suc f) d cs = parse_elems f d cs"
      if "parse_value f d s = Some (v, r)" "skip_ws r = c # cs" for v r c cs
      using 2 parse_consumes(1) [OF that(1)] skip_ws_Cons_length [OF that(2)]
      by (intro Suc.IH(2)) simp
    show ?case
      by (simp only: parse_elems.simps(2) [of "Suc f" d s] parse_elems.simps(2) [of f d s] val) (auto simp del: parse_elems.simps parse_value.simps
        simp: rest split: option.split list.split)
  next
    case 3
    have val: "parse_value (Suc f) d cs = parse_value f d cs"
      if "skip_ws s = q # qs" "parse_string qs = Some (k, r)" "skip_ws r = c # cs" for q qs k r c cs
      using 3 skip_ws_Cons_length [OF that(1)] parse_string_length [OF that(2)]
        skip_ws_Cons_length [OF that(3)] by (intro Suc.IH(1)) simp
    have rest: "parse_members (Suc f) d es = parse_members f d es"
      if "skip_ws s = q # qs" "parse_string qs = Some (k, r)" "skip_ws r = c # cs"
        "parse_value f d cs = Some (v, r')" "skip_ws r' = e # es" for q qs k r c cs v r' e es
      using 3 skip_ws_Cons_length [OF that(1)] parse_string_length [OF that(2)]
        skip_ws_Cons_length [OF that(3)] parse_consumes(1) [OF that(4)]
        skip_ws_Cons_length [OF that(5)] by (intro Suc.IH(3)) simp
    show ?case
      by (simp only: parse_members.simps(2) [of "Suc f" d s] parse_members.simps(2) [of f d s]) (auto simp del: parse_members.simps parse_value.simps
        simp: val rest split: option.split list.split)
  }
qed

text \<open>More fuel than \<open>json_parse\<close> takes never changes the result.\<close>

lemma parse_fuel_enough:
  "parse_value (2 * length s + 2 + n) 0 s = parse_value (2 * length s + 2) 0 s"
  by (induction n) (simp_all add: parse_fuel_step(1) del: parse_value.simps)

section \<open>Well-formed values\<close>

fun wf_gv :: "gv \<Rightarrow> bool" where
  "wf_gv (VFloat x) = is_finite x"
| "wf_gv (VSlice vs) = list_all wf_gv vs"
| "wf_gv (VMap m) = (keys_sorted m \<and> list_all (\<lambda>(k, v). wf_gv v) m)"
| "wf_gv _ = True"

definition wf_gomap :: "gomap \<Rightarrow> bool" where
  "wf_gomap m = (keys_sorted m \<and> (\<forall>(k, v) \<in> set m. wf_gv v))"

lemma wf_gv_VMap [simp]: "wf_gv (VMap m) = wf_gomap m"
  by (simp add: wf_gomap_def list_all_iff)

declare wf_gv.simps(3) [simp del]

lemma wf_gomap_Nil [simp]: "wf_gomap []"
  by (simp add: wf_gomap_def)

lemma wf_gomap_keys [simp]: "wf_gomap m \<Longrightarrow> keys_sorted m"
  by (simp add: wf_gomap_def)

lemma wf_gomap_put [simp]: "wf_gomap m \<Longrightarrow> wf_gv v \<Longrightarrow> wf_gomap (map_put k v m)"
  using set_map_put [of k v m] by (auto simp: wf_gomap_def)

lemma wf_gomap_del [simp]: "wf_gomap m \<Longrightarrow> wf_gomap (map_del k m)"
  using set_map_del [of k m] by (auto simp: wf_gomap_def)

lemma wf_gomap_get: "wf_gomap m \<Longrightarrow> map_get m k = Some v \<Longrightarrow> wf_gv v"
  by (auto simp: wf_gomap_def dest: map_of_SomeD)

lemma to_gv_wf:
  shows "to_gv j = Some v \<Longrightarrow> wf_gv v"
    and "to_gvs js = Some vs \<Longrightarrow> list_all wf_gv vs"
    and "to_fields ms m = Some m' \<Longrightarrow> wf_gomap m \<Longrightarrow> wf_gomap m'"
  by (induction j and js and ms m arbitrary: v and vs and m' rule: to_gv_to_gvs_to_fields.induct)
     (auto split: option.splits dest: float_of_decimal_finite)

lemma to_gomap_wf: "to_gomap j = Some (Some m) \<Longrightarrow> wf_gomap m"
  by (cases j) (auto dest: to_gv_wf(3))

lemma to_gomaps_wf: "to_gomaps js = Some ms \<Longrightarrow> Some m \<in> set ms \<Longrightarrow> wf_gomap m"
  by (induction js arbitrary: ms) (auto split: option.splits dest: to_gomap_wf)

lemma to_responseBody_wf: "to_responseBody j = Some ms \<Longrightarrow> Some m \<in> set ms \<Longrightarrow> wf_gomap m"
  by (cases j) (auto dest: to_gomaps_wf)

section \<open>Marshalling\<close>

lemma marshal_wf:
  shows "wf_gv v \<Longrightarrow> \<exists>s. marshal v = Some s"
    and "list_all wf_gv vs \<Longrightarrow> \<exists>ss. marshal_items vs = Some ss"
    and "list_all (\<lambda>(k, v). wf_gv v) m \<Longrightarrow> \<exists>ss. marshal_fields m = Some ss"
proof (induction v and vs and m rule: marshal_marshal_items_marshal_fields.induct)
  case (4 x)
  then show ?case by (cases x) (auto split: prod.splits)
next
  case (7 m)
  then have "list_all (\<lambda>(k, v). wf_gv v) m" by (simp add: wf_gomap_def list_all_iff)
  then have "\<exists>ss. marshal_fields m = Some ss" by (rule 7(1))
  then show ?case by auto
qed (auto split: option.splits)

lemma marshal_map_wf: "wf_gomap m \<Longrightarrow> \<exists>s. marshal_map (Some m) = Some s"
  using marshal_wf(1) [of "VMap m"] by (simp add: marshal_map_def)

text \<open>No byte of a marshalled value is a newline, and the text is never empty.\<close>

lemma byte_in_ge: "byte_in lo hi c \<Longrightarrow> lo \<le> of_char c"
  by (simp add: byte_in_def)

lemma utf8_len_high: "c \<in> set (take (utf8_len s) s) \<Longrightarrow> (0x80::int) \<le> of_char c"
  by (auto simp: utf8_len_def numeral_2_eq_2 numeral_3_eq_3 numeral_eq_Suc
      split: list.splits if_splits dest!: byte_in_ge)

lemma newline_low: "(of_char newline :: int) = 10"
  by simp

lemma hex_char_not_newline: "0 \<le> d \<Longrightarrow> d < 16 \<Longrightarrow> hex_char d \<noteq> newline"
proof
  assume d: "0 \<le> d" "d < 16" and eq: "hex_char d = newline"
  have "(of_char (hex_char d) :: int) = (if d < 10 then 48 + d else 87 + d)"
    using d by (simp add: hex_char_def)
  with eq d show False by (simp split: if_splits)
qed

lemma of_char_range: "0 \<le> (of_char c :: int) \<and> (of_char c :: int) < 256"
  using pos_mod_bound [of 256 "of_char c :: int"] pos_mod_sign [of 256 "of_char c :: int"] by simp

lemma ascii_escape_no_newline: "newline \<notin> set (ascii_escape c)"
proof -
  have "(of_char c :: int) div 16 < 16" using of_char_range [of c] by linarith
  moreover have "0 \<le> (of_char c :: int) div 16" using of_char_range [of c] by linarith
  ultimately show ?thesis
    using hex_char_not_newline [of "of_char c div 16"] hex_char_not_newline [of "of_char c mod 16"]
    by (auto simp: ascii_escape_def u00_def)
qed

lemma json_chars_no_newline: "newline \<notin> set (json_chars s)"
proof (induction s rule: json_chars.induct)
  case (2 c cs)
  have "newline \<notin> set (take (utf8_len (c # cs)) (c # cs))"
    using utf8_len_high [of newline "c # cs"] newline_low by auto
  with 2 show ?case
    by (auto simp: Let_def ascii_escape_no_newline simp del: take_Cons)
qed simp

lemma show_uint_no_newline: "0 \<le> n \<Longrightarrow> newline \<notin> set (show_uint n)"
proof
  assume "0 \<le> n" and "newline \<in> set (show_uint n)"
  then obtain d where "0 \<le> d" "d < 10" "newline = digit_char d" using show_uint_digits by blast
  then have "(of_char newline :: int) = 48 + d" using of_char_digit_char by metis
  then show False using \<open>0 \<le> d\<close> by simp
qed

lemma show_int_no_newline [simp]: "newline \<notin> set (show_int n)"
  by (simp add: show_int_def show_uint_no_newline)

lemma fmtF_no_newline: "newline \<notin> set ds \<Longrightarrow> newline \<notin> set (fmtF ds dp)"
  by (auto simp: fmtF_def Let_def dest: in_set_takeD in_set_dropD)

lemma fmtE_no_newline: "newline \<notin> set ds \<Longrightarrow> newline \<notin> set (fmtE w ds dp)"
  by (cases ds) (auto simp: fmtE_def Let_def)

lemma fmtF_not_Nil: "fmtF ds dp \<noteq> []"
  by (simp add: fmtF_def Let_def)

lemma fmtE_not_Nil: "fmtE w ds dp \<noteq> []"
  by (simp add: fmtE_def Let_def)

lemma shortest_no_newline: "newline \<notin> set (fst (shortest m k))"
  by (auto simp: shortest_def Let_def split: prod.splits dest: set_dropWhileD)

lemma json_float_text: "json_float x = Some s \<Longrightarrow> newline \<notin> set s \<and> s \<noteq> []"
proof (cases x)
  case (Fin neg m k)
  moreover assume "json_float x = Some s"
  ultimately show ?thesis
    using shortest_no_newline [of m k] fmtF_no_newline fmtE_no_newline fmtF_not_Nil fmtE_not_Nil
    by (cases "shortest m k") (auto simp: sign_str_def split: if_splits)
qed auto

lemma joinStr_no_newline:
  "newline \<notin> set sep \<Longrightarrow> \<forall>x \<in> set xs. newline \<notin> set x \<Longrightarrow> newline \<notin> set (joinStr sep xs)"
  by (induction sep xs rule: joinStr.induct) auto

lemma marshal_text:
  shows "marshal v = Some s \<Longrightarrow> newline \<notin> set s \<and> s \<noteq> []"
    and "marshal_items vs = Some ss \<Longrightarrow> \<forall>x \<in> set ss. newline \<notin> set x"
    and "marshal_fields m = Some ss \<Longrightarrow> \<forall>x \<in> set ss. newline \<notin> set x"
  by (induction v and vs and m arbitrary: s and ss and ss
      rule: marshal_marshal_items_marshal_fields.induct)
     (auto split: option.splits if_splits simp: json_string_def json_chars_no_newline
       joinStr_no_newline dest: json_float_text)

lemma marshal_map_text: "marshal_map m = Some s \<Longrightarrow> newline \<notin> set s \<and> s \<noteq> []"
proof (cases m)
  case (Some kv)
  moreover assume "marshal_map m = Some s"
  ultimately show ?thesis using marshal_text(1) [of "VMap kv" s] by (simp add: marshal_map_def)
qed (auto simp: marshal_map_def)

end
