(* ===== verification/World.thy ===== *)
theory World
  imports Go_Json_Facts "HOL-Library.Word"
begin

text \<open>
  The outside of the program. \<open>ext\<close> collects the operations of code that is not in the repository
  (the operating system, the HTTP transport, the AWS SDK, the UUID and logging packages, the
  compressor) as parameters of the model: a theorem about a definition that takes an \<open>ext\<close> holds
  for every behaviour of them. An operation whose answer can change from call to call takes the
  number of calls made so far, \<open>w_tick\<close>. A server that keeps serving is the outcome \<open>Hang\<close> of
  \<open>http_ListenAndServe\<close>, since the call does not return. \<open>world\<close> is what the program changes: the log of its
  HTTP exchanges, S3 uploads and decryptions, the time it slept, and the package variables of
  \<open>sumoclient.go\<close>.
\<close>

section \<open>Errors\<close>

text \<open>One constructor per place where the program makes or wraps an error.\<close>

datatype error =
    External string
  | ErrMaxRetriesReached
  | ErrGzipWrite error
  | ErrGzipClose error
  | ErrJson
  | ErrParsePayload bytes error
  | ErrGetEndpoint error
  | ErrNewRequest error
  | ErrAwsConfig error
  | ErrToBlob
  | ErrDecrypting error
  | ErrNoValidEndpoint
  | ErrSendToS3 string string error
  | ErrCompress error
  | ErrFlushCompress error
  | ErrFlushAll nat "error option"
  | ErrChunksDropped nat
  | ErrSendLogsTransform error
  | ErrSendLogsChunks error
  | ErrSendLogsPost nat
  | ErrSendAllChunks error
  | ErrSendAllPost nat
  | ErrStatusCode int
  | ErrRequestFailed int bytes

section \<open>Messages exchanged with the outside\<close>

record request =
  rq_method :: string
  rq_url :: string
  rq_header :: "(string \<times> string) list"
  rq_body :: bytes

record response =
  StatusCode :: int
  rs_header :: "(string \<times> string) list"
  rs_body :: "error + bytes"

record s3_put =
  put_bucket :: string
  put_key :: string
  put_body :: bytes

record kms_input =
  CiphertextBlob :: bytes
  KeyId :: string
  EncryptionContext :: "(string \<times> string) list"

record gotime =
  t_nanos :: int
  t_year :: int
  t_month :: int
  t_day :: int
  t_hour :: int
  t_minute :: int

section \<open>External operations and the state they act on\<close>

record ext =
  os_LookupEnv :: "string \<Rightarrow> string option"
  os_Arg0 :: string
  url_ParseRequestURI :: "string \<Rightarrow> error option"
  http_NewRequest :: "string \<Rightarrow> string \<Rightarrow> error option"
  http_Do :: "nat \<Rightarrow> request \<Rightarrow> error + response"
  s3_Upload :: "nat \<Rightarrow> s3_put \<Rightarrow> error option"
  aws_LoadDefaultConfig :: "nat \<Rightarrow> error option"
  kms_Decrypt :: "nat \<Rightarrow> kms_input \<Rightarrow> error + bytes"
  uuid_NewUUID :: "nat \<Rightarrow> error + string"
  time_Now :: "nat \<Rightarrow> gotime"
  time_UTC :: "gotime \<Rightarrow> gotime"
  logrus_ParseLevel :: "string \<Rightarrow> error + nat"
  gzip_Write :: "bytes \<Rightarrow> error option"
  gzip_Close :: "bytes \<Rightarrow> error option"
  gzip_Output :: "bytes \<Rightarrow> bytes"
  http_ListenAndServe :: "string \<Rightarrow> error option outcome"

record world =
  w_tick :: nat
  w_http :: "(request \<times> (error + response)) list"
  w_puts :: "(s3_put \<times> error option) list"
  w_kms :: "kms_input list"
  w_slept :: "64 word list"
  isColdStart :: bool
  decryptedSumoHttpEndpoint :: string
  kmsEndpointCacheTime :: int

definition os_Getenv :: "ext \<Rightarrow> string \<Rightarrow> string" where
  "os_Getenv x k = (case os_LookupEnv x k of None \<Rightarrow> [] | Some v \<Rightarrow> v)"

definition tick :: "world \<Rightarrow> world" where
  "tick w = w\<lparr>w_tick := Suc (w_tick w)\<rparr>"

definition now :: "ext \<Rightarrow> world \<Rightarrow> gotime \<times> world" where
  "now x w = (time_Now x (w_tick w), tick w)"

definition sleep :: "64 word \<Rightarrow> world \<Rightarrow> world" where
  "sleep d w = (tick w)\<lparr>w_slept := w_slept w @ [d]\<rparr>"

definition do_http :: "ext \<Rightarrow> request \<Rightarrow> world \<Rightarrow> (error + response) \<times> world" where
  "do_http x rq w =
     (let r = http_Do x (w_tick w) rq
      in (r, (tick w)\<lparr>w_http := w_http w @ [(rq, r)]\<rparr>))"

lemma tick_simps [simp]:
  "w_tick (tick w) = Suc (w_tick w)" "w_http (tick w) = w_http w" "w_puts (tick w) = w_puts w"
  "w_kms (tick w) = w_kms w" "w_slept (tick w) = w_slept w" "isColdStart (tick w) = isColdStart w"
  "decryptedSumoHttpEndpoint (tick w) = decryptedSumoHttpEndpoint w"
  "kmsEndpointCacheTime (tick w) = kmsEndpointCacheTime w"
  by (simp_all add: tick_def)

lemma snd_now [simp]: "snd (now x w) = tick w"
  by (simp add: now_def)

text \<open>The header operations of \<open>net/http\<close> on canonical keys.\<close>

definition header_Set :: "string \<Rightarrow> string \<Rightarrow> (string \<times> string) list \<Rightarrow> (string \<times> string) list" where
  "header_Set k v h = filter (\<lambda>p. fst p \<noteq> k) h @ [(k, v)]"

definition header_Add :: "string \<Rightarrow> string \<Rightarrow> (string \<times> string) list \<Rightarrow> (string \<times> string) list" where
  "header_Add k v h = h @ [(k, v)]"

definition header_Get :: "(string \<times> string) list \<Rightarrow> string \<Rightarrow> string" where
  "header_Get h k = (case map_of h k of None \<Rightarrow> [] | Some v \<Rightarrow> v)"

lemma header_Get_Set [simp]:
  "header_Get (header_Set k v h) k' = (if k' = k then v else header_Get h k')"
proof -
  have "map_of (filter (\<lambda>p. fst p \<noteq> k) h) k' = (if k' = k then None else map_of h k')"
    by (induction h) auto
  then show ?thesis by (auto simp: header_Get_def header_Set_def map_add_def split: option.splits)
qed

end
