(* ===== verification/Utils.thy ===== *)
theory Utils
  imports World
begin

text \<open>
  \<open>lambda-extensions/utils\<close>: the retry loop, membership in a slice, gzip compression of a string and
  of a buffer, JSON detection, and the S3 uploader with the region it is built with.
\<close>

section \<open>Retry\<close>

text \<open>
  The loop of \<open>Retry\<close>, from a given attempt on. The retried function gets the attempt and returns
  whether to go on together with its error; \<open>errMaxRetriesReached\<close> is the result once the attempt
  is above the limit.
\<close>

type_synonym 'w Func = "int \<Rightarrow> 'w \<Rightarrow> (bool \<times> error option) \<times> 'w"

function Retry_from :: "'w Func \<Rightarrow> int \<Rightarrow> int \<Rightarrow> 'w \<Rightarrow> error option \<times> 'w" where
  "Retry_from fn maxRetries attempt w =
     (if attempt > maxRetries then (Some ErrMaxRetriesReached, w)
      else (case fn attempt w of
              ((cont, err), w') \<Rightarrow>
                if \<not> cont \<or> err = None then (err, w')
                else Retry_from fn maxRetries (attempt + 1) w'))"
  by pat_completeness auto
termination
  by (relation "measure (\<lambda>(fn, maxRetries, attempt, w). nat (maxRetries + 1 - attempt))") auto

declare Retry_from.simps [simp del]

definition Retry :: "'w Func \<Rightarrow> int \<Rightarrow> 'w \<Rightarrow> error option \<times> 'w" where
  "Retry fn maxRetries w = Retry_from fn maxRetries 1 w"

section \<open>The remaining functions\<close>

fun StringInSlice :: "string \<Rightarrow> string list \<Rightarrow> bool" where
  "StringInSlice a [] = False"
| "StringInSlice a (b # list) = (if b = a then True else StringInSlice a list)"

definition Compress :: "ext \<Rightarrow> string \<Rightarrow> error + bytes" where
  "Compress x logStringToSend =
     (case gzip_Write x logStringToSend of
        Some err \<Rightarrow> Inl (ErrGzipWrite err)
      | None \<Rightarrow>
          (case gzip_Close x logStringToSend of
             Some err \<Rightarrow> Inl (ErrGzipClose err)
           | None \<Rightarrow> Inr (gzip_Output x logStringToSend)))"

definition CompressBuffer :: "ext \<Rightarrow> bytes \<Rightarrow> error + bytes" where
  "CompressBuffer x inputbuf =
     (case gzip_Write x inputbuf of
        Some err \<Rightarrow> Inl (ErrGzipWrite err)
      | None \<Rightarrow>
          (case gzip_Close x inputbuf of
             Some err \<Rightarrow> Inl (ErrGzipClose err)
           | None \<Rightarrow> Inr (gzip_Output x inputbuf)))"

definition ParseJson :: "string \<Rightarrow> error + gomap option" where
  "ParseJson s =
     (case json_parse s of
        None \<Rightarrow> Inl ErrJson
      | Some j \<Rightarrow> (case to_gomap j of None \<Rightarrow> Inl ErrJson | Some js \<Rightarrow> Inr js))"

text \<open>
  \<open>PrettyPrint\<close> on a value of the encoder: \<open>json.MarshalIndent\<close> with an empty prefix and a tab for every level.
  An empty slice or map stays on its line; an error gives the empty string.
\<close>

definition new_line :: "nat \<Rightarrow> string" where
  "new_line d = newline # replicate d (CHR 0x09)"

fun MarshalIndent :: "nat \<Rightarrow> gv \<Rightarrow> string option"
and indent_items :: "nat \<Rightarrow> gv list \<Rightarrow> string list option"
and indent_fields :: "nat \<Rightarrow> gomap \<Rightarrow> string list option" where
  "MarshalIndent d (VSlice vs) =
     map_option (\<lambda>xs. if xs = [] then ''[]''
        else CHR ''['' # new_line (Suc d) @ joinStr (CHR '','' # new_line (Suc d)) xs @ new_line d @ '']'')
       (indent_items (Suc d) vs)"
| "MarshalIndent d (VMap m) =
     map_option (\<lambda>xs. if xs = [] then ''{}''
        else CHR ''{'' # new_line (Suc d) @ joinStr (CHR '','' # new_line (Suc d)) xs @ new_line d @ ''}'')
       (indent_fields (Suc d) m)"
| "MarshalIndent d v = marshal v"
| "indent_items d [] = Some []"
| "indent_items d (v # vs) =
     (case MarshalIndent d v of None \<Rightarrow> None | Some x \<Rightarrow> map_option (\<lambda>xs. x # xs) (indent_items d vs))"
| "indent_fields d [] = Some []"
| "indent_fields d ((k, v) # m) =
     (case MarshalIndent d v of
        None \<Rightarrow> None
      | Some x \<Rightarrow> map_option (\<lambda>xs. (json_string k @ '': '' @ x) # xs) (indent_fields d m))"

definition PrettyPrint :: "gv \<Rightarrow> string" where
  "PrettyPrint v = (case MarshalIndent 0 v of None \<Rightarrow> [] | Some data \<Rightarrow> data)"

text \<open>
  The package initialiser of \<open>awsutils.go\<close>: the region comes from \<open>SUMO_S3_BUCKET_REGION\<close> when that
  variable is present, even empty, and from \<open>AWS_REGION\<close> otherwise; a configuration that cannot be
  loaded is a panic.
\<close>

definition uploader_region :: "ext \<Rightarrow> string" where
  "uploader_region x =
     (case os_LookupEnv x ''SUMO_S3_BUCKET_REGION'' of
        Some r \<Rightarrow> r
      | None \<Rightarrow> os_Getenv x ''AWS_REGION'')"

definition awsutils_init :: "ext \<Rightarrow> (world, string) action" where
  "awsutils_init x w =
     (case aws_LoadDefaultConfig x (w_tick w) of
        Some err \<Rightarrow> (Panic (PanicValue ''unable to load AWS SDK config''), tick w)
      | None \<Rightarrow> (Ret (uploader_region x), tick w))"

definition UploadToS3 :: "ext \<Rightarrow> string \<Rightarrow> string \<Rightarrow> bytes \<Rightarrow> world \<Rightarrow> error option \<times> world" where
  "UploadToS3 x bucketName keyName data w =
     (let put = \<lparr>put_bucket = bucketName, put_key = keyName, put_body = data\<rparr>;
          err = s3_Upload x (w_tick w) put
      in (err, (tick w)\<lparr>w_puts := w_puts w @ [(put, err)]\<rparr>))"

section \<open>The retry loop as a search over attempts\<close>

text \<open>
  A reference definition of the loop: \<open>state_after fn w k\<close> is the state after the first \<open>k\<close> calls made
  one after the other, and the loop stops at the first call that has no error or asks to stop.
\<close>

fun state_after :: "'w Func \<Rightarrow> 'w \<Rightarrow> nat \<Rightarrow> 'w" where
  "state_after fn w 0 = w"
| "state_after fn w (Suc k) = snd (fn (int k + 1) (state_after fn w k))"

definition call_result :: "'w Func \<Rightarrow> 'w \<Rightarrow> nat \<Rightarrow> bool \<times> error option" where
  "call_result fn w k = fst (fn (int k + 1) (state_after fn w k))"

definition stops_at :: "'w Func \<Rightarrow> 'w \<Rightarrow> nat \<Rightarrow> bool" where
  "stops_at fn w k = (\<not> fst (call_result fn w k) \<or> snd (call_result fn w k) = None)"

definition Retry_spec :: "'w Func \<Rightarrow> int \<Rightarrow> 'w \<Rightarrow> error option \<times> 'w" where
  "Retry_spec fn maxRetries w =
     (case find (stops_at fn w) [0..<nat maxRetries] of
        Some k \<Rightarrow> (snd (call_result fn w k), state_after fn w (Suc k))
      | None \<Rightarrow> (Some ErrMaxRetriesReached, state_after fn w (nat maxRetries)))"

lemma Retry_from_search:
  "k \<le> nat maxRetries \<Longrightarrow>
   Retry_from fn maxRetries (int k + 1) (state_after fn w k) =
     (case find (stops_at fn w) [k..<nat maxRetries] of
        Some j \<Rightarrow> (snd (call_result fn w j), state_after fn w (Suc j))
      | None \<Rightarrow> (Some ErrMaxRetriesReached, state_after fn w (nat maxRetries)))"
proof (induction "nat maxRetries - k" arbitrary: k)
  case 0
  then have "maxRetries < int k + 1" "[k..<nat maxRetries] = []" "nat maxRetries = k" by simp_all
  then show ?case by (subst Retry_from.simps) simp
next
  case (Suc n)
  then have lt: "k < nat maxRetries" by simp
  obtain cont err w' where call: "fn (int k + 1) (state_after fn w k) = ((cont, err), w')"
    by (metis prod.exhaust)
  have split: "[k..<nat maxRetries] = k # [Suc k..<nat maxRetries]" using lt by (rule upt_conv_Cons)
  have stop: "stops_at fn w k = (\<not> cont \<or> err = None)"
    by (simp add: stops_at_def call_result_def call)
  show ?case
  proof (cases "\<not> cont \<or> err = None")
    case True
    then show ?thesis using lt call stop
      by (subst Retry_from.simps) (auto simp: split call_result_def)
  next
    case False
    have "Retry_from fn maxRetries (int (Suc k) + 1) (state_after fn w (Suc k)) =
        (case find (stops_at fn w) [Suc k..<nat maxRetries] of
           Some j \<Rightarrow> (snd (call_result fn w j), state_after fn w (Suc j))
         | None \<Rightarrow> (Some ErrMaxRetriesReached, state_after fn w (nat maxRetries)))"
      using Suc lt by (intro Suc.hyps(1)) simp_all
    then show ?thesis using False lt call stop
      by (subst Retry_from.simps) (auto simp: split add.commute)
  qed
qed

section \<open>Contract of a retried function\<close>

text \<open>
  What a caller may conclude about a loop from its body: \<open>inv w n w'\<close> relates the state \<open>w\<close> before the
  loop to the one after \<open>n\<close> calls of the body, and \<open>good w w'\<close> is the success that a call without an
  error establishes and a call with an error does not.
\<close>

locale retried =
  fixes fn :: "'w Func"
    and inv :: "'w \<Rightarrow> nat \<Rightarrow> 'w \<Rightarrow> bool"
    and good :: "'w \<Rightarrow> 'w \<Rightarrow> bool"
    and lim :: int
  assumes inv_step: "inv w n w' \<Longrightarrow> fn attempt w' = (r, w'') \<Longrightarrow> inv w (Suc n) w''"
    and fn_ok: "inv w n w' \<Longrightarrow> fn attempt w' = ((cont, None), w'') \<Longrightarrow> good w w''"
    and fn_err: "inv w n w' \<Longrightarrow> \<not> good w w' \<Longrightarrow> fn attempt w' = ((cont, Some e), w'') \<Longrightarrow>
        cont = (attempt < lim) \<and> \<not> good w w''"
begin

lemma Retry_from_inv:
  assumes "inv w n w1" and "\<not> good w w1" and "1 \<le> attempt"
    and "Retry_from fn maxRetries attempt w1 = (err, w2)"
  shows "\<exists>k. inv w (n + k) w2 \<and> int k \<le> max 0 (min maxRetries (max lim attempt) + 1 - attempt)
      \<and> (err = None \<longleftrightarrow> good w w2)"
  using assms
proof (induction "nat (maxRetries + 1 - attempt)" arbitrary: attempt w1 n rule: less_induct)
  case less
  show ?case
  proof (cases "attempt > maxRetries")
    case True
    with less.prems show ?thesis by (auto simp: Retry_from.simps intro!: exI [of _ 0])
  next
    case False
    obtain cont e w' where call: "fn attempt w1 = ((cont, e), w')" by (metis prod.exhaust)
    then have inv': "inv w (n + 1) w'" using inv_step less.prems(1) by simp
    show ?thesis
    proof (cases "\<not> cont \<or> e = None")
      case True
      with False call less.prems(4) have "err = e" "w2 = w'"
        by (auto simp: Retry_from.simps [of fn])
      moreover have "e = None \<longleftrightarrow> good w w'"
        using call fn_ok [OF less.prems(1)] fn_err [OF less.prems(1,2)] by (cases e) auto
      ultimately show ?thesis using inv' False by (intro exI [of _ 1]) auto
    next
      case go: False
      then have lt: "attempt < lim" and bad: "\<not> good w w'"
        using call fn_err [OF less.prems(1,2)] by auto
      from go False call less.prems(4) have "Retry_from fn maxRetries (attempt + 1) w' = (err, w2)"
        by (auto simp: Retry_from.simps [of fn _ attempt])
      from less.hyps [OF _ inv' bad _ this] False less.prems(3)
      obtain k where "inv w (n + 1 + k) w2" and "err = None \<longleftrightarrow> good w w2"
        and k: "int k \<le> max 0 (min maxRetries (max lim (attempt + 1)) + 1 - (attempt + 1))" by auto
      moreover have "int (Suc k) \<le> max 0 (min maxRetries (max lim attempt) + 1 - attempt)"
        using k lt False by (auto simp: max_def min_def split: if_splits)
      ultimately show ?thesis by (intro exI [of _ "Suc k"]) auto
    qed
  qed
qed

lemma Retry_inv:
  assumes "inv w n w1" and "\<not> good w w1" and "Retry fn maxRetries w1 = (err, w2)"
  shows "\<exists>k. inv w (n + k) w2 \<and> int k \<le> max 0 (min maxRetries (max lim 1)) \<and> (err = None \<longleftrightarrow> good w w2)"
  using Retry_from_inv [OF assms(1,2), of 1 maxRetries err w2] assms(3) by (simp add: Retry_def)

end

section \<open>Properties\<close>

text \<open>
  C21. \<open>Retry\<close> is the search for the first attempt that stops: it calls the function with
  attempts 1, 2, ... in order, threading the state, returns the error of the first call that has
  no error or that asks to stop, and \<open>errMaxRetriesReached\<close> when none of the first
  \<open>maxRetries\<close> calls stops. In particular it always returns.
\<close>

theorem Retry_is_search: "Retry fn maxRetries w = Retry_spec fn maxRetries w"
  using Retry_from_search [of 0 maxRetries fn w] by (simp add: Retry_def Retry_spec_def)

lemma StringInSlice_iff: "StringInSlice a list \<longleftrightarrow> a \<in> set list"
  by (induction list) auto

lemma Compress_eq_CompressBuffer: "Compress x s = CompressBuffer x s"
  by (simp add: Compress_def CompressBuffer_def)

lemma ParseJson_wf: "ParseJson s = Inr (Some m) \<Longrightarrow> wf_gomap m"
  by (auto simp: ParseJson_def split: option.splits dest: to_gomap_wf)

end
