(* ===== verification/Config.thy ===== *)
theory Config
  imports Utils
begin

text \<open>
  \<open>lambda-extensions/config\<close>: the configuration record, its defaults and its validation from the
  environment. Validation is a sequence of blocks; each block is a definition on a state that
  holds the configuration, the list \<open>allErrors\<close> and whether the function-level variable \<open>err\<close> is
  set (blocks that declare their own \<open>err\<close> do not touch it). Durations are 64-bit words of
  nanoseconds, so that the product with \<open>time.Millisecond\<close> wraps as in Go.
\<close>

section \<open>The configuration record\<close>

record LambdaExtensionConfig =
  SumoHTTPEndpoint :: string
  KMSKeyId :: string
  EnableFailover :: bool
  S3BucketName :: string
  S3BucketRegion :: string
  NumRetry :: int
  AWSLambdaRuntimeAPI :: string
  LogTypes :: "string list"
  FunctionName :: string
  FunctionVersion :: string
  LogLevel :: nat
  MaxDataQueueLength :: int
  MaxConcurrentRequests :: int
  MaxRetryAttempts :: int
  RetrySleepTime :: "64 word"
  ConnectionTimeoutValue :: "64 word"
  MaxDataPayloadSize :: int
  LambdaRegion :: string
  SourceCategoryOverride :: string
  EnhanceJsonLogs :: bool
  EnableSpanDrops :: bool
  KmsCacheSeconds :: int
  TelemetryTimeoutMs :: int
  TelemetryMaxBytes :: int
  TelemetryMaxItems :: int

definition defaultLogTypes :: "string list" where
  "defaultLogTypes = [''platform'', ''function'']"

definition validLogTypes :: "string list" where
  "validLogTypes = [''platform'', ''function'', ''extension'']"

definition ExtensionName :: "ext \<Rightarrow> string" where
  "ExtensionName x = filepath_Base (os_Arg0 x)"

definition layerVersion :: string where
  "layerVersion = ''11''"

definition SumoLogicExtensionLayerVersionSuffix :: "ext \<Rightarrow> string" where
  "SumoLogicExtensionLayerVersionSuffix x = ExtensionName x @ ''-prod:'' @ layerVersion"

definition Millisecond :: "64 word" where
  "Millisecond = 1000000"

text \<open>\<open>logrus.InfoLevel\<close>; the zero value of the level is \<open>logrus.PanicLevel\<close>.\<close>

definition InfoLevel :: nat where
  "InfoLevel = 4"

section \<open>Defaults\<close>

text \<open>\<open>update_if b f c\<close> is the statement \<open>if b { c = f(c) }\<close>.\<close>

definition update_if :: "bool \<Rightarrow> ('a \<Rightarrow> 'a) \<Rightarrow> 'a \<Rightarrow> 'a" where
  "update_if b f c = (if b then f c else c)"

definition setDefaults :: "ext \<Rightarrow> LambdaExtensionConfig \<Rightarrow> LambdaExtensionConfig" where
  "setDefaults x cfg =
     (let env = os_Getenv x;
          cfg = update_if (env ''TELEMETRY_TIMEOUT_MS'' = []) (\<lambda>c. c\<lparr>TelemetryTimeoutMs := 1000\<rparr>) cfg;
          cfg = update_if (env ''TELEMETRY_MAX_BYTES'' = []) (\<lambda>c. c\<lparr>TelemetryMaxBytes := 262144\<rparr>) cfg;
          cfg = update_if (env ''TELEMETRY_MAX_ITEMS'' = []) (\<lambda>c. c\<lparr>TelemetryMaxItems := 10000\<rparr>) cfg;
          cfg = update_if (env ''SUMO_NUM_RETRIES'' = []) (\<lambda>c. c\<lparr>NumRetry := 3\<rparr>) cfg;
          cfg = update_if (env ''SUMO_LOG_LEVEL'' = []) (\<lambda>c. c\<lparr>LogLevel := InfoLevel\<rparr>) cfg;
          cfg = update_if (env ''SUMO_MAX_DATAQUEUE_LENGTH'' = []) (\<lambda>c. c\<lparr>MaxDataQueueLength := 20\<rparr>) cfg;
          cfg = update_if (env ''SUMO_MAX_CONCURRENT_REQUESTS'' = []) (\<lambda>c. c\<lparr>MaxConcurrentRequests := 3\<rparr>) cfg;
          cfg = update_if (env ''SUMO_ENABLE_FAILOVER'' = []) (\<lambda>c. c\<lparr>EnableFailover := False\<rparr>) cfg;
          cfg = update_if (AWSLambdaRuntimeAPI cfg = []) (\<lambda>c. c\<lparr>AWSLambdaRuntimeAPI := ''127.0.0.1:9001''\<rparr>) cfg;
          cfg = cfg\<lparr>LogTypes := (if env ''SUMO_LOG_TYPES'' = [] then defaultLogTypes
                               else Split_comma (env ''SUMO_LOG_TYPES''))\<rparr>;
          cfg = update_if (env ''SUMO_RETRY_SLEEP_TIME_MS'' = []) (\<lambda>c. c\<lparr>RetrySleepTime := 300 * Millisecond\<rparr>) cfg;
          cfg = update_if (env ''SUMO_ENHANCE_JSON_LOGS'' = []) (\<lambda>c. c\<lparr>EnhanceJsonLogs := True\<rparr>) cfg;
          cfg = update_if (env ''SUMO_SPAN_DROP'' = []) (\<lambda>c. c\<lparr>EnableSpanDrops := False\<rparr>) cfg;
          cfg = update_if (env ''KMS_CACHE_SECONDS'' = []) (\<lambda>c. c\<lparr>KmsCacheSeconds := 5\<rparr>) cfg
      in cfg)"

section \<open>Validation\<close>

datatype cfg_error =
    EndpointNotSet
  | EndpointNotValid
  | UnableToParse string num_error
  | UnableToParseLevel error
  | BucketNameNotSet
  | BucketRegionNotSet
  | UnsupportedLogType string

record vstate =
  v_cfg :: LambdaExtensionConfig
  allErrors :: "cfg_error list"
  v_err :: bool

definition add_error :: "cfg_error \<Rightarrow> vstate \<Rightarrow> vstate" where
  "add_error e v = v\<lparr>allErrors := allErrors v @ [e]\<rparr>"

text \<open>\<open>cfg.f, err = strconv.ParseBool(s)\<close>: the value is stored also when there is an error.\<close>

definition store_bool ::
  "(bool \<Rightarrow> LambdaExtensionConfig \<Rightarrow> LambdaExtensionConfig) \<Rightarrow> string \<Rightarrow> string \<Rightarrow> vstate \<Rightarrow> vstate" where
  "store_bool upd name s v =
     (case ParseBool s of
        (b, e) \<Rightarrow>
          let v' = v\<lparr>v_cfg := upd b (v_cfg v), v_err := (e \<noteq> None)\<rparr>
          in (case e of None \<Rightarrow> v' | Some ne \<Rightarrow> add_error (UnableToParse name ne) v'))"

text \<open>\<open>custom, err := strconv.ParseInt(s, 10, 32)\<close>: the value is stored only without an error.\<close>

definition store_int32 ::
  "(int \<Rightarrow> LambdaExtensionConfig \<Rightarrow> LambdaExtensionConfig) \<Rightarrow> string \<Rightarrow> string \<Rightarrow> vstate \<Rightarrow> vstate" where
  "store_int32 upd name s v =
     (case ParseInt 32 s of
        (_, Some ne) \<Rightarrow> add_error (UnableToParse name ne) v
      | (n, None) \<Rightarrow> v\<lparr>v_cfg := upd n (v_cfg v)\<rparr>)"

text \<open>\<open>cfg.f, err = strconv.ParseInt(s, 10, bits)\<close>: the value is stored also when there is an error.\<close>

definition assign_int ::
  "nat \<Rightarrow> (int \<Rightarrow> LambdaExtensionConfig \<Rightarrow> LambdaExtensionConfig) \<Rightarrow> string \<Rightarrow> string \<Rightarrow> vstate \<Rightarrow> vstate" where
  "assign_int bits upd name s v =
     (case ParseInt bits s of
        (n, e) \<Rightarrow>
          let v' = v\<lparr>v_cfg := upd n (v_cfg v), v_err := (e \<noteq> None)\<rparr>
          in (case e of None \<Rightarrow> v' | Some ne \<Rightarrow> add_error (UnableToParse name ne) v'))"

definition check_endpoint :: "ext \<Rightarrow> vstate \<Rightarrow> vstate" where
  "check_endpoint x v =
     (let v1 = (if SumoHTTPEndpoint (v_cfg v) = [] then add_error EndpointNotSet v else v)
      in if SumoHTTPEndpoint (v_cfg v1) \<noteq> [] \<and> KMSKeyId (v_cfg v1) = [] then
           (case url_ParseRequestURI x (SumoHTTPEndpoint (v_cfg v1)) of
              None \<Rightarrow> v1\<lparr>v_err := False\<rparr>
            | Some _ \<Rightarrow> add_error EndpointNotValid (v1\<lparr>v_err := True\<rparr>))
         else v1)"

definition check_failover :: "ext \<Rightarrow> vstate \<Rightarrow> vstate" where
  "check_failover x v =
     (let s = os_Getenv x ''SUMO_ENABLE_FAILOVER'';
          v1 = (if s \<noteq> [] then store_bool (\<lambda>b c. c\<lparr>EnableFailover := b\<rparr>) ''SUMO_ENABLE_FAILOVER'' s v else v)
      in if EnableFailover (v_cfg v1) then
           (let v2 = (if S3BucketName (v_cfg v1) = [] then add_error BucketNameNotSet v1 else v1)
            in if S3BucketRegion (v_cfg v2) = [] then add_error BucketRegionNotSet v2 else v2)
         else v1)"

definition check_numRetry :: "ext \<Rightarrow> vstate \<Rightarrow> vstate" where
  "check_numRetry x v =
     (let s = os_Getenv x ''SUMO_NUM_RETRIES''
      in if s \<noteq> [] then store_int32 (\<lambda>n c. c\<lparr>NumRetry := n\<rparr>) ''SUMO_NUM_RETRIES'' s v else v)"

definition check_retrySleepTime :: "ext \<Rightarrow> vstate \<Rightarrow> vstate" where
  "check_retrySleepTime x v =
     (let s = os_Getenv x ''SUMO_RETRY_SLEEP_TIME_MS''
      in if s \<noteq> [] then
           store_int32 (\<lambda>n c. c\<lparr>RetrySleepTime := word_of_int n * Millisecond\<rparr>) ''SUMO_RETRY_SLEEP_TIME_MS'' s v
         else v)"

definition check_maxDataQueueLength :: "ext \<Rightarrow> vstate \<Rightarrow> vstate" where
  "check_maxDataQueueLength x v =
     (let s = os_Getenv x ''SUMO_MAX_DATAQUEUE_LENGTH''
      in if s \<noteq> [] then
           store_int32 (\<lambda>n c. c\<lparr>MaxDataQueueLength := n\<rparr>) ''SUMO_MAX_DATAQUEUE_LENGTH'' s v
         else v)"

definition check_maxConcurrentRequests :: "ext \<Rightarrow> vstate \<Rightarrow> vstate" where
  "check_maxConcurrentRequests x v =
     (let s = os_Getenv x ''SUMO_MAX_CONCURRENT_REQUESTS''
      in if s \<noteq> [] then
           store_int32 (\<lambda>n c. c\<lparr>MaxConcurrentRequests := n\<rparr>) ''SUMO_MAX_CONCURRENT_REQUESTS'' s v
         else v)"

definition check_logLevel :: "ext \<Rightarrow> vstate \<Rightarrow> vstate" where
  "check_logLevel x v =
     (let s = os_Getenv x ''SUMO_LOG_LEVEL''
      in if s \<noteq> [] then
           (case logrus_ParseLevel x s of
              Inl e \<Rightarrow> add_error (UnableToParseLevel e) v
            | Inr l \<Rightarrow> v\<lparr>v_cfg := (v_cfg v)\<lparr>LogLevel := l\<rparr>\<rparr>)
         else v)"

definition check_enhanceJsonLogs :: "ext \<Rightarrow> vstate \<Rightarrow> vstate" where
  "check_enhanceJsonLogs x v =
     (let s = os_Getenv x ''SUMO_ENHANCE_JSON_LOGS''
      in if s \<noteq> [] then store_bool (\<lambda>b c. c\<lparr>EnhanceJsonLogs := b\<rparr>) ''SUMO_ENHANCE_JSON_LOGS'' s v else v)"

definition check_enableSpanDrops :: "ext \<Rightarrow> vstate \<Rightarrow> vstate" where
  "check_enableSpanDrops x v =
     (let s = os_Getenv x ''SUMO_SPAN_DROP''
      in if s \<noteq> [] then store_bool (\<lambda>b c. c\<lparr>EnableSpanDrops := b\<rparr>) ''SUMO_SPAN_DROP'' s v else v)"

definition check_kmsCacheSeconds :: "ext \<Rightarrow> vstate \<Rightarrow> vstate" where
  "check_kmsCacheSeconds x v =
     (let s = os_Getenv x ''KMS_CACHE_SECONDS''
      in if s \<noteq> [] then assign_int 32 (\<lambda>n c. c\<lparr>KmsCacheSeconds := n\<rparr>) ''KMS_CACHE_SECONDS'' s v else v)"

definition clamp :: "int \<Rightarrow> int \<Rightarrow> int \<Rightarrow> int" where
  "clamp lo hi n = min (max n lo) hi"

definition check_telemetryTimeoutMs :: "ext \<Rightarrow> vstate \<Rightarrow> vstate" where
  "check_telemetryTimeoutMs x v =
     (let s = os_Getenv x ''TELEMETRY_TIMEOUT_MS''
      in if s \<noteq> [] then
           (let v1 = store_int32 (\<lambda>n c. c\<lparr>TelemetryTimeoutMs := n\<rparr>) ''TELEMETRY_TIMEOUT_MS'' s v
            in v1\<lparr>v_cfg := (v_cfg v1)\<lparr>TelemetryTimeoutMs := clamp 25 30000 (TelemetryTimeoutMs (v_cfg v1))\<rparr>\<rparr>)
         else v)"

definition check_telemetryMaxBytes :: "ext \<Rightarrow> vstate \<Rightarrow> vstate" where
  "check_telemetryMaxBytes x v =
     (let s = os_Getenv x ''TELEMETRY_MAX_BYTES''
      in if s \<noteq> [] then
           (let v1 = assign_int 64 (\<lambda>n c. c\<lparr>TelemetryMaxBytes := n\<rparr>) ''TELEMETRY_MAX_BYTES'' s v
            in v1\<lparr>v_cfg := (v_cfg v1)\<lparr>TelemetryMaxBytes := clamp 262144 1048576 (TelemetryMaxBytes (v_cfg v1))\<rparr>\<rparr>)
         else v)"

definition check_telemetryMaxItems :: "ext \<Rightarrow> vstate \<Rightarrow> vstate" where
  "check_telemetryMaxItems x v =
     (let s = os_Getenv x ''TELEMETRY_MAX_ITEMS''
      in if s \<noteq> [] then
           (let v1 = store_int32 (\<lambda>n c. c\<lparr>TelemetryMaxItems := n\<rparr>) ''TELEMETRY_MAX_ITEMS'' s v
            in v1\<lparr>v_cfg := (v_cfg v1)\<lparr>TelemetryMaxItems := clamp 1000 10000 (TelemetryMaxItems (v_cfg v1))\<rparr>\<rparr>)
         else v)"

fun check_logTypes :: "string list \<Rightarrow> vstate \<Rightarrow> vstate" where
  "check_logTypes [] v = v"
| "check_logTypes (logType # rest) v =
     check_logTypes rest
       (if \<not> StringInSlice (TrimSpace logType) validLogTypes then add_error (UnsupportedLogType logType) v else v)"

text \<open>The result is the configuration and the error: \<open>None\<close> is nil.\<close>

definition validateConfig ::
  "ext \<Rightarrow> LambdaExtensionConfig \<Rightarrow> LambdaExtensionConfig \<times> cfg_error list option" where
  "validateConfig x cfg =
     (let v = \<lparr>v_cfg = cfg, allErrors = [], v_err = False\<rparr>;
          v = check_endpoint x v;
          v = check_failover x v;
          v = check_numRetry x v;
          v = check_retrySleepTime x v;
          v = check_maxDataQueueLength x v;
          v = check_maxConcurrentRequests x v;
          v = check_logLevel x v;
          v = check_enhanceJsonLogs x v;
          v = check_enableSpanDrops x v;
          v = check_kmsCacheSeconds x v;
          v = check_telemetryTimeoutMs x v;
          v = check_telemetryMaxBytes x v;
          v = check_telemetryMaxItems x v;
          v = check_logTypes (LogTypes (v_cfg v)) v
      in (v_cfg v,
          if allErrors v \<noteq> [] then Some (allErrors v)
          else if v_err v then Some [] else None))"

text \<open>A zero value for every field that the literal of \<open>GetConfig\<close> does not set.\<close>

definition initial_config :: "ext \<Rightarrow> LambdaExtensionConfig" where
  "initial_config x =
     \<lparr>SumoHTTPEndpoint = os_Getenv x ''SUMO_HTTP_ENDPOINT'',
      KMSKeyId = os_Getenv x ''KMS_KEY_ID'',
      EnableFailover = False,
      S3BucketName = os_Getenv x ''SUMO_S3_BUCKET_NAME'',
      S3BucketRegion = os_Getenv x ''SUMO_S3_BUCKET_REGION'',
      NumRetry = 0,
      AWSLambdaRuntimeAPI = os_Getenv x ''AWS_LAMBDA_RUNTIME_API'',
      LogTypes = [],
      FunctionName = os_Getenv x ''AWS_LAMBDA_FUNCTION_NAME'',
      FunctionVersion = os_Getenv x ''AWS_LAMBDA_FUNCTION_VERSION'',
      LogLevel = 0,
      MaxDataQueueLength = 0,
      MaxConcurrentRequests = 0,
      MaxRetryAttempts = 5,
      RetrySleepTime = 0,
      ConnectionTimeoutValue = 10000 * Millisecond,
      MaxDataPayloadSize = 1024 * 1024,
      LambdaRegion = os_Getenv x ''AWS_REGION'',
      SourceCategoryOverride = os_Getenv x ''SOURCE_CATEGORY_OVERRIDE'',
      EnhanceJsonLogs = False,
      EnableSpanDrops = False,
      KmsCacheSeconds = 0,
      TelemetryTimeoutMs = 0,
      TelemetryMaxBytes = 0,
      TelemetryMaxItems = 0\<rparr>"

definition GetConfig :: "ext \<Rightarrow> LambdaExtensionConfig \<times> cfg_error list option" where
  "GetConfig x = validateConfig x (setDefaults x (initial_config x))"

section \<open>Contract of a validation block\<close>

text \<open>
  What every block of \<open>validateConfig\<close> keeps: errors are only added at the end, the fixed limits of
  \<open>GetConfig\<close> and the fields read straight from the environment are not written, and whenever the
  function-level \<open>err\<close> is set there is an entry in \<open>allErrors\<close>.
\<close>

definition fixed_fields :: "LambdaExtensionConfig \<Rightarrow> string list \<times> int \<times> int \<times> 64 word \<times> string list" where
  "fixed_fields c =
     ([SumoHTTPEndpoint c, KMSKeyId c, S3BucketName c, S3BucketRegion c, AWSLambdaRuntimeAPI c,
       FunctionName c, FunctionVersion c, LambdaRegion c, SourceCategoryOverride c],
      MaxRetryAttempts c, MaxDataPayloadSize c, ConnectionTimeoutValue c, LogTypes c)"

definition err_reported :: "vstate \<Rightarrow> bool" where
  "err_reported v \<longleftrightarrow> (v_err v \<longrightarrow> allErrors v \<noteq> [])"

locale config_block =
  fixes block :: "vstate \<Rightarrow> vstate"
  assumes errors_grow: "\<exists>es. allErrors (block v) = allErrors v @ es"
    and reports: "err_reported v \<Longrightarrow> err_reported (block v)"
    and fixed: "fixed_fields (v_cfg (block v)) = fixed_fields (v_cfg v)"
begin

lemma no_errors_before: "allErrors (block v) = [] \<Longrightarrow> allErrors v = []"
  using errors_grow [of v] by auto

end

lemma config_block_comp:
  assumes "config_block f" and "config_block g"
  shows "config_block (\<lambda>v. g (f v))"
proof -
  have "\<exists>es. allErrors (g (f v)) = allErrors v @ es" for v
    using config_block.errors_grow [OF assms(1), of v] config_block.errors_grow [OF assms(2), of "f v"]
    by auto
  moreover have "err_reported v \<Longrightarrow> err_reported (g (f v))" for v
    by (rule config_block.reports [OF assms(2) config_block.reports [OF assms(1)]])
  moreover have "fixed_fields (v_cfg (g (f v))) = fixed_fields (v_cfg v)" for v
    using config_block.fixed [OF assms(1)] config_block.fixed [OF assms(2)] by simp
  ultimately show ?thesis by unfold_locales
qed

lemmas block_defs = add_error_def err_reported_def fixed_fields_def

lemma config_block_store_bool:
  "(\<And>b c. fixed_fields (upd b c) = fixed_fields c) \<Longrightarrow> config_block (store_bool upd name s)"
  by unfold_locales
     (auto simp: store_bool_def add_error_def err_reported_def Let_def split: prod.splits option.splits)

lemma config_block_store_int32:
  "(\<And>n c. fixed_fields (upd n c) = fixed_fields c) \<Longrightarrow> config_block (store_int32 upd name s)"
  by unfold_locales
     (auto simp: store_int32_def add_error_def err_reported_def split: prod.splits option.splits)

lemma config_block_assign_int:
  "(\<And>n c. fixed_fields (upd n c) = fixed_fields c) \<Longrightarrow> config_block (assign_int bits upd name s)"
  by unfold_locales
     (auto simp: assign_int_def add_error_def err_reported_def Let_def split: prod.splits option.splits)

lemma config_block_id: "config_block (\<lambda>v. v)"
  by unfold_locales auto

lemma config_block_upd:
  "(\<And>c. fixed_fields (upd c) = fixed_fields c) \<Longrightarrow> config_block (\<lambda>v. v\<lparr>v_cfg := upd (v_cfg v)\<rparr>)"
  by unfold_locales (auto simp: err_reported_def)

lemma config_block_if: "config_block f \<Longrightarrow> config_block g \<Longrightarrow> config_block (\<lambda>v. if b then f v else g v)"
  by (cases b) simp_all

lemmas config_block_intros =
  config_block_if config_block_id config_block_store_bool config_block_store_int32
  config_block_assign_int

interpretation endpoint: config_block "check_endpoint x"
  by unfold_locales (auto simp: check_endpoint_def block_defs Let_def split: option.splits)

interpretation numRetry: config_block "check_numRetry x"
  unfolding check_numRetry_def Let_def
  by (intro config_block_intros) (simp add: fixed_fields_def)

interpretation retrySleepTime: config_block "check_retrySleepTime x"
  unfolding check_retrySleepTime_def Let_def
  by (intro config_block_intros) (simp add: fixed_fields_def)

interpretation maxDataQueueLength: config_block "check_maxDataQueueLength x"
  unfolding check_maxDataQueueLength_def Let_def
  by (intro config_block_intros) (simp add: fixed_fields_def)

interpretation maxConcurrentRequests: config_block "check_maxConcurrentRequests x"
  unfolding check_maxConcurrentRequests_def Let_def
  by (intro config_block_intros) (simp add: fixed_fields_def)

interpretation enhanceJsonLogs: config_block "check_enhanceJsonLogs x"
  unfolding check_enhanceJsonLogs_def Let_def
  by (intro config_block_intros) (simp add: fixed_fields_def)

interpretation enableSpanDrops: config_block "check_enableSpanDrops x"
  unfolding check_enableSpanDrops_def Let_def
  by (intro config_block_intros) (simp add: fixed_fields_def)

interpretation kmsCacheSeconds: config_block "check_kmsCacheSeconds x"
  unfolding check_kmsCacheSeconds_def Let_def
  by (intro config_block_intros) (simp add: fixed_fields_def)

interpretation logLevel: config_block "check_logLevel x"
  by unfold_locales (auto simp: check_logLevel_def block_defs Let_def split: sum.splits)

lemma config_block_failover_checks:
  "config_block (\<lambda>v. if EnableFailover (v_cfg v) then
       (let v2 = (if S3BucketName (v_cfg v) = [] then add_error BucketNameNotSet v else v)
        in if S3BucketRegion (v_cfg v2) = [] then add_error BucketRegionNotSet v2 else v2)
     else v)"
  by unfold_locales (auto simp: block_defs Let_def)

interpretation failover: config_block "check_failover x"
proof -
  have "config_block (\<lambda>v. if os_Getenv x ''SUMO_ENABLE_FAILOVER'' \<noteq> []
      then store_bool (\<lambda>b c. c\<lparr>EnableFailover := b\<rparr>) ''SUMO_ENABLE_FAILOVER'' (os_Getenv x ''SUMO_ENABLE_FAILOVER'') v
      else v)"
    by (intro config_block_intros) (simp add: fixed_fields_def)
  from config_block_comp [OF this config_block_failover_checks]
  show "config_block (check_failover x)"
    unfolding check_failover_def Let_def by simp
qed

lemma config_block_clamped:
  assumes "config_block f" and "\<And>c. fixed_fields (upd c) = fixed_fields c"
  shows "config_block (\<lambda>v. if b then (let v1 = f v in v1\<lparr>v_cfg := upd (v_cfg v1)\<rparr>) else v)"
  using config_block_comp [OF assms(1) config_block_upd [of upd, OF assms(2)]]
  by (auto simp: Let_def intro: config_block_if config_block_id)

interpretation telemetryTimeoutMs: config_block "check_telemetryTimeoutMs x"
  unfolding check_telemetryTimeoutMs_def Let_def [where s = "os_Getenv x _"]
  by (intro config_block_clamped config_block_intros) (simp_all add: fixed_fields_def)

interpretation telemetryMaxBytes: config_block "check_telemetryMaxBytes x"
  unfolding check_telemetryMaxBytes_def Let_def [where s = "os_Getenv x _"]
  by (intro config_block_clamped config_block_intros) (simp_all add: fixed_fields_def)

interpretation telemetryMaxItems: config_block "check_telemetryMaxItems x"
  unfolding check_telemetryMaxItems_def Let_def [where s = "os_Getenv x _"]
  by (intro config_block_clamped config_block_intros) (simp_all add: fixed_fields_def)

lemma check_logTypes_block: "config_block (check_logTypes ts)"
proof (induction ts)
  case (Cons t ts)
  have "config_block (\<lambda>v. if \<not> StringInSlice (TrimSpace t) validLogTypes then add_error (UnsupportedLogType t) v else v)"
    by unfold_locales (auto simp: block_defs)
  from config_block_comp [OF this Cons.IH] show ?case by simp
qed (simp add: config_block_id)

interpretation logTypes: config_block "check_logTypes ts"
  by (rule check_logTypes_block)

section \<open>The whole validation\<close>

definition all_checks :: "ext \<Rightarrow> (vstate \<Rightarrow> vstate) list" where
  "all_checks x =
     [check_endpoint x, check_failover x, check_numRetry x, check_retrySleepTime x,
      check_maxDataQueueLength x, check_maxConcurrentRequests x, check_logLevel x,
      check_enhanceJsonLogs x, check_enableSpanDrops x, check_kmsCacheSeconds x,
      check_telemetryTimeoutMs x, check_telemetryMaxBytes x, check_telemetryMaxItems x]"

definition run_checks :: "ext \<Rightarrow> vstate \<Rightarrow> vstate" where
  "run_checks x = fold (\<lambda>f. f) (all_checks x)"

lemma config_block_fold: "\<forall>f \<in> set fs. config_block f \<Longrightarrow> config_block (fold (\<lambda>f. f) fs)"
proof (induction fs)
  case (Cons f fs)
  then have "config_block f" "config_block (fold (\<lambda>f. f) fs)" by simp_all
  then have "config_block (\<lambda>v. fold (\<lambda>f. f) fs (f v))" by (rule config_block_comp)
  then show ?case by (simp add: comp_def)
qed (simp add: config_block_id id_def)

abbreviation validated :: "ext \<Rightarrow> LambdaExtensionConfig \<Rightarrow> vstate" where
  "validated x cfg \<equiv>
     (let v = run_checks x \<lparr>v_cfg = cfg, allErrors = [], v_err = False\<rparr>
      in check_logTypes (LogTypes (v_cfg v)) v)"

lemma validateConfig_validated:
  "validateConfig x cfg =
     (v_cfg (validated x cfg),
      if allErrors (validated x cfg) \<noteq> [] then Some (allErrors (validated x cfg))
      else if v_err (validated x cfg) then Some [] else None)"
  by (simp only: validateConfig_def run_checks_def all_checks_def Let_def fold_simps id_apply)

lemmas block_axioms =
  endpoint.config_block_axioms failover.config_block_axioms numRetry.config_block_axioms
  retrySleepTime.config_block_axioms maxDataQueueLength.config_block_axioms
  maxConcurrentRequests.config_block_axioms logLevel.config_block_axioms
  enhanceJsonLogs.config_block_axioms enableSpanDrops.config_block_axioms
  kmsCacheSeconds.config_block_axioms telemetryTimeoutMs.config_block_axioms
  telemetryMaxBytes.config_block_axioms telemetryMaxItems.config_block_axioms

interpretation checks: config_block "run_checks x"
  unfolding run_checks_def by (rule config_block_fold) (simp add: all_checks_def block_axioms)

lemma validated_err_reported: "err_reported (validated x cfg)"
  by (simp add: Let_def logTypes.reports checks.reports err_reported_def [of "\<lparr>v_cfg = cfg, allErrors = [], v_err = False\<rparr>"])

lemma validated_fixed: "fixed_fields (v_cfg (validated x cfg)) = fixed_fields cfg"
  by (simp add: Let_def logTypes.fixed checks.fixed)

lemma add_error_cfg [simp]: "v_cfg (add_error e v) = v_cfg v"
  by (simp add: add_error_def)

lemma check_logTypes_cfg [simp]: "v_cfg (check_logTypes ts v) = v_cfg v"
  by (induction ts arbitrary: v) simp_all

lemmas check_defs =
  check_endpoint_def check_failover_def check_numRetry_def check_retrySleepTime_def
  check_maxDataQueueLength_def check_maxConcurrentRequests_def check_logLevel_def
  check_enhanceJsonLogs_def check_enableSpanDrops_def check_kmsCacheSeconds_def
  check_telemetryTimeoutMs_def check_telemetryMaxBytes_def check_telemetryMaxItems_def

end
