(* ===== verification/Config_Props.thy ===== *)
theory Config_Props
  imports Config
begin

text \<open>
  What a configuration built by \<open>GetConfig\<close> promises: every field in closed form over the
  environment, the ranges of the numeric fields in every environment, the meaning of a nil error,
  and the retry delay in milliseconds without overflow.
\<close>

section \<open>What each block writes\<close>

text \<open>The value a setting has after its block, from the text of its variable and its old value.\<close>

definition int_setting :: "string \<Rightarrow> int \<Rightarrow> int" where
  "int_setting s old =
     (if s = [] then old else case ParseInt 32 s of (n, None) \<Rightarrow> n | _ \<Rightarrow> old)"

definition bool_setting :: "string \<Rightarrow> bool \<Rightarrow> bool" where
  "bool_setting s old = (if s = [] then old else fst (ParseBool s))"

definition level_setting :: "ext \<Rightarrow> string \<Rightarrow> nat \<Rightarrow> nat" where
  "level_setting x s old =
     (if s = [] then old else case logrus_ParseLevel x s of Inr l \<Rightarrow> l | Inl _ \<Rightarrow> old)"

definition delay_setting :: "string \<Rightarrow> 64 word \<Rightarrow> 64 word" where
  "delay_setting s old =
     (if s = [] then old
      else case ParseInt 32 s of (n, None) \<Rightarrow> word_of_int n * Millisecond | _ \<Rightarrow> old)"

lemma store_cfg [simp]:
  "v_cfg (store_bool upd name s v) = upd (fst (ParseBool s)) (v_cfg v)"
  "v_cfg (store_int32 updi name s v) =
     (case ParseInt 32 s of (n, None) \<Rightarrow> updi n (v_cfg v) | _ \<Rightarrow> v_cfg v)"
  "v_cfg (assign_int bits updi name s v) = updi (fst (ParseInt bits s)) (v_cfg v)"
  by (auto simp: store_bool_def store_int32_def assign_int_def Let_def split: prod.split option.split)

lemma check_cfg:
  "v_cfg (check_endpoint x v) = v_cfg v"
  "v_cfg (check_failover x v) =
     (v_cfg v)\<lparr>EnableFailover := bool_setting (os_Getenv x ''SUMO_ENABLE_FAILOVER'') (EnableFailover (v_cfg v))\<rparr>"
  "v_cfg (check_numRetry x v) =
     (v_cfg v)\<lparr>NumRetry := int_setting (os_Getenv x ''SUMO_NUM_RETRIES'') (NumRetry (v_cfg v))\<rparr>"
  "v_cfg (check_retrySleepTime x v) =
     (v_cfg v)\<lparr>RetrySleepTime := delay_setting (os_Getenv x ''SUMO_RETRY_SLEEP_TIME_MS'') (RetrySleepTime (v_cfg v))\<rparr>"
  "v_cfg (check_maxDataQueueLength x v) =
     (v_cfg v)\<lparr>MaxDataQueueLength := int_setting (os_Getenv x ''SUMO_MAX_DATAQUEUE_LENGTH'') (MaxDataQueueLength (v_cfg v))\<rparr>"
  "v_cfg (check_maxConcurrentRequests x v) =
     (v_cfg v)\<lparr>MaxConcurrentRequests := int_setting (os_Getenv x ''SUMO_MAX_CONCURRENT_REQUESTS'') (MaxConcurrentRequests (v_cfg v))\<rparr>"
  "v_cfg (check_logLevel x v) =
     (v_cfg v)\<lparr>LogLevel := level_setting x (os_Getenv x ''SUMO_LOG_LEVEL'') (LogLevel (v_cfg v))\<rparr>"
  "v_cfg (check_enhanceJsonLogs x v) =
     (v_cfg v)\<lparr>EnhanceJsonLogs := bool_setting (os_Getenv x ''SUMO_ENHANCE_JSON_LOGS'') (EnhanceJsonLogs (v_cfg v))\<rparr>"
  "v_cfg (check_enableSpanDrops x v) =
     (v_cfg v)\<lparr>EnableSpanDrops := bool_setting (os_Getenv x ''SUMO_SPAN_DROP'') (EnableSpanDrops (v_cfg v))\<rparr>"
  "v_cfg (check_kmsCacheSeconds x v) =
     (v_cfg v)\<lparr>KmsCacheSeconds :=
        (if os_Getenv x ''KMS_CACHE_SECONDS'' = [] then KmsCacheSeconds (v_cfg v)
         else fst (ParseInt 32 (os_Getenv x ''KMS_CACHE_SECONDS'')))\<rparr>"
  "v_cfg (check_telemetryTimeoutMs x v) =
     (v_cfg v)\<lparr>TelemetryTimeoutMs :=
        (if os_Getenv x ''TELEMETRY_TIMEOUT_MS'' = [] then TelemetryTimeoutMs (v_cfg v)
         else clamp 25 30000 (int_setting (os_Getenv x ''TELEMETRY_TIMEOUT_MS'') (TelemetryTimeoutMs (v_cfg v))))\<rparr>"
  "v_cfg (check_telemetryMaxBytes x v) =
     (v_cfg v)\<lparr>TelemetryMaxBytes :=
        (if os_Getenv x ''TELEMETRY_MAX_BYTES'' = [] then TelemetryMaxBytes (v_cfg v)
         else clamp 262144 1048576 (fst (ParseInt 64 (os_Getenv x ''TELEMETRY_MAX_BYTES''))))\<rparr>"
  "v_cfg (check_telemetryMaxItems x v) =
     (v_cfg v)\<lparr>TelemetryMaxItems :=
        (if os_Getenv x ''TELEMETRY_MAX_ITEMS'' = [] then TelemetryMaxItems (v_cfg v)
         else clamp 1000 10000 (int_setting (os_Getenv x ''TELEMETRY_MAX_ITEMS'') (TelemetryMaxItems (v_cfg v))))\<rparr>"
  by (simp_all add: check_defs Let_def int_setting_def bool_setting_def level_setting_def delay_setting_def
      split: option.split sum.split prod.split)

lemma run_checks_chain:
  "run_checks x v =
     check_telemetryMaxItems x (check_telemetryMaxBytes x (check_telemetryTimeoutMs x
       (check_kmsCacheSeconds x (check_enableSpanDrops x (check_enhanceJsonLogs x (check_logLevel x
         (check_maxConcurrentRequests x (check_maxDataQueueLength x (check_retrySleepTime x
           (check_numRetry x (check_failover x (check_endpoint x v))))))))))))"
  by (simp only: run_checks_def all_checks_def fold_simps id_apply)

lemma fst_GetConfig:
  "fst (GetConfig x) =
     v_cfg (run_checks x \<lparr>v_cfg = setDefaults x (initial_config x), allErrors = [], v_err = False\<rparr>)"
  by (simp add: GetConfig_def validateConfig_validated Let_def)

text \<open>The numeric settings of the configuration in closed form.\<close>

lemma GetConfig_fields:
  fixes x defines "c \<equiv> fst (GetConfig x)" and "d \<equiv> setDefaults x (initial_config x)"
  shows "TelemetryTimeoutMs c =
       (if os_Getenv x ''TELEMETRY_TIMEOUT_MS'' = [] then TelemetryTimeoutMs d
        else clamp 25 30000 (int_setting (os_Getenv x ''TELEMETRY_TIMEOUT_MS'') (TelemetryTimeoutMs d)))"
    and "TelemetryMaxBytes c =
       (if os_Getenv x ''TELEMETRY_MAX_BYTES'' = [] then TelemetryMaxBytes d
        else clamp 262144 1048576 (fst (ParseInt 64 (os_Getenv x ''TELEMETRY_MAX_BYTES''))))"
    and "TelemetryMaxItems c =
       (if os_Getenv x ''TELEMETRY_MAX_ITEMS'' = [] then TelemetryMaxItems d
        else clamp 1000 10000 (int_setting (os_Getenv x ''TELEMETRY_MAX_ITEMS'') (TelemetryMaxItems d)))"
    and "RetrySleepTime c = delay_setting (os_Getenv x ''SUMO_RETRY_SLEEP_TIME_MS'') (RetrySleepTime d)"
    and "NumRetry c = int_setting (os_Getenv x ''SUMO_NUM_RETRIES'') (NumRetry d)"
    and "MaxDataQueueLength c = int_setting (os_Getenv x ''SUMO_MAX_DATAQUEUE_LENGTH'') (MaxDataQueueLength d)"
    and "MaxConcurrentRequests c = int_setting (os_Getenv x ''SUMO_MAX_CONCURRENT_REQUESTS'') (MaxConcurrentRequests d)"
    and "EnableFailover c = bool_setting (os_Getenv x ''SUMO_ENABLE_FAILOVER'') (EnableFailover d)"
    and "LogTypes c = LogTypes d"
  by (simp_all add: c_def d_def fst_GetConfig run_checks_chain check_cfg)

text \<open>A conditional assignment to one field, as one assignment.\<close>

lemma update_if_upd:
  "update_if b (\<lambda>c. c\<lparr>TelemetryTimeoutMs := n\<rparr>) c = c\<lparr>TelemetryTimeoutMs := if b then n else TelemetryTimeoutMs c\<rparr>"
  "update_if b (\<lambda>c. c\<lparr>TelemetryMaxBytes := n\<rparr>) c = c\<lparr>TelemetryMaxBytes := if b then n else TelemetryMaxBytes c\<rparr>"
  "update_if b (\<lambda>c. c\<lparr>TelemetryMaxItems := n\<rparr>) c = c\<lparr>TelemetryMaxItems := if b then n else TelemetryMaxItems c\<rparr>"
  "update_if b (\<lambda>c. c\<lparr>NumRetry := n\<rparr>) c = c\<lparr>NumRetry := if b then n else NumRetry c\<rparr>"
  "update_if b (\<lambda>c. c\<lparr>LogLevel := l\<rparr>) c = c\<lparr>LogLevel := if b then l else LogLevel c\<rparr>"
  "update_if b (\<lambda>c. c\<lparr>MaxDataQueueLength := n\<rparr>) c = c\<lparr>MaxDataQueueLength := if b then n else MaxDataQueueLength c\<rparr>"
  "update_if b (\<lambda>c. c\<lparr>MaxConcurrentRequests := n\<rparr>) c = c\<lparr>MaxConcurrentRequests := if b then n else MaxConcurrentRequests c\<rparr>"
  "update_if b (\<lambda>c. c\<lparr>EnableFailover := t\<rparr>) c = c\<lparr>EnableFailover := if b then t else EnableFailover c\<rparr>"
  "update_if b (\<lambda>c. c\<lparr>AWSLambdaRuntimeAPI := s\<rparr>) c = c\<lparr>AWSLambdaRuntimeAPI := if b then s else AWSLambdaRuntimeAPI c\<rparr>"
  "update_if b (\<lambda>c. c\<lparr>RetrySleepTime := d\<rparr>) c = c\<lparr>RetrySleepTime := if b then d else RetrySleepTime c\<rparr>"
  "update_if b (\<lambda>c. c\<lparr>EnhanceJsonLogs := t\<rparr>) c = c\<lparr>EnhanceJsonLogs := if b then t else EnhanceJsonLogs c\<rparr>"
  "update_if b (\<lambda>c. c\<lparr>EnableSpanDrops := t\<rparr>) c = c\<lparr>EnableSpanDrops := if b then t else EnableSpanDrops c\<rparr>"
  "update_if b (\<lambda>c. c\<lparr>KmsCacheSeconds := n\<rparr>) c = c\<lparr>KmsCacheSeconds := if b then n else KmsCacheSeconds c\<rparr>"
  by (simp_all add: update_if_def)

lemma setDefaults_fields:
  "TelemetryTimeoutMs (setDefaults x c) =
     (if os_Getenv x ''TELEMETRY_TIMEOUT_MS'' = [] then 1000 else TelemetryTimeoutMs c)"
  "TelemetryMaxBytes (setDefaults x c) =
     (if os_Getenv x ''TELEMETRY_MAX_BYTES'' = [] then 262144 else TelemetryMaxBytes c)"
  "TelemetryMaxItems (setDefaults x c) =
     (if os_Getenv x ''TELEMETRY_MAX_ITEMS'' = [] then 10000 else TelemetryMaxItems c)"
  "RetrySleepTime (setDefaults x c) =
     (if os_Getenv x ''SUMO_RETRY_SLEEP_TIME_MS'' = [] then 300 * Millisecond else RetrySleepTime c)"
  "NumRetry (setDefaults x c) = (if os_Getenv x ''SUMO_NUM_RETRIES'' = [] then 3 else NumRetry c)"
  "MaxDataQueueLength (setDefaults x c) =
     (if os_Getenv x ''SUMO_MAX_DATAQUEUE_LENGTH'' = [] then 20 else MaxDataQueueLength c)"
  "MaxConcurrentRequests (setDefaults x c) =
     (if os_Getenv x ''SUMO_MAX_CONCURRENT_REQUESTS'' = [] then 3 else MaxConcurrentRequests c)"
  "EnableFailover (setDefaults x c) =
     (if os_Getenv x ''SUMO_ENABLE_FAILOVER'' = [] then False else EnableFailover c)"
  "LogTypes (setDefaults x c) =
     (if os_Getenv x ''SUMO_LOG_TYPES'' = [] then defaultLogTypes else Split_comma (os_Getenv x ''SUMO_LOG_TYPES''))"
  by (simp_all add: setDefaults_def Let_def update_if_upd)

lemma clamp_bounds: "lo \<le> hi \<Longrightarrow> lo \<le> clamp lo hi n" "lo \<le> hi \<Longrightarrow> clamp lo hi n \<le> hi"
  by (auto simp: clamp_def)

lemma int_setting_range:
  assumes "- (2 ^ 31) \<le> old" and "old < 2 ^ 31"
  shows "- (2 ^ 31) \<le> int_setting s old \<and> int_setting s old < 2 ^ 31"
  using assms ParseInt_bounds [of 32 s]
  by (cases "ParseInt 32 s") (auto simp: int_setting_def split: option.split)

lemma sint_milliseconds:
  assumes "- (2 ^ 31) \<le> n" and "n < 2 ^ 31"
  shows "sint (word_of_int n * Millisecond :: 64 word) = n * 1000000"
proof -
  have "sint (word_of_int (n * 1000000) :: 64 word) = signed_take_bit 63 (n * 1000000)"
    by (subst sint_sbintrunc') simp
  also have "\<dots> = n * 1000000"
    by (rule signed_take_bit_int_eq_self) (use assms in simp_all)
  finally show ?thesis by (simp add: Millisecond_def)
qed

section \<open>Properties\<close>

text \<open>
  C26. The buffering settings sent to the Telemetry API lie in the documented ranges (25 to
  30000 ms, 262144 to 1048576 bytes, 1000 to 10000 items) whatever the environment holds, also
  when a variable cannot be parsed.
\<close>

theorem telemetry_settings_in_range:
  "25 \<le> TelemetryTimeoutMs (fst (GetConfig x)) \<and> TelemetryTimeoutMs (fst (GetConfig x)) \<le> 30000
   \<and> 262144 \<le> TelemetryMaxBytes (fst (GetConfig x)) \<and> TelemetryMaxBytes (fst (GetConfig x)) \<le> 1048576
   \<and> 1000 \<le> TelemetryMaxItems (fst (GetConfig x)) \<and> TelemetryMaxItems (fst (GetConfig x)) \<le> 10000"
  by (simp add: GetConfig_fields setDefaults_fields clamp_bounds)

text \<open>
  \<open>GetConfig\<close> returns a nil error exactly when no check added an entry to \<open>allErrors\<close>: a
  leftover value of the function-level variable \<open>err\<close> is never returned on its own.
\<close>

theorem GetConfig_error_iff:
  "snd (GetConfig x) =
     (if allErrors (validated x (setDefaults x (initial_config x))) = [] then None
      else Some (allErrors (validated x (setDefaults x (initial_config x)))))"
  using validated_err_reported [of x "setDefaults x (initial_config x)"]
  by (auto simp: GetConfig_def validateConfig_validated err_reported_def)

text \<open>
  C32. The retry delay is a whole number of milliseconds in the range of a 32-bit integer: the
  multiplication by \<open>time.Millisecond\<close> in 64-bit arithmetic never wraps around.
\<close>

theorem RetrySleepTime_no_overflow:
  "\<exists>ms. - (2 ^ 31) \<le> ms \<and> ms < 2 ^ 31 \<and> sint (RetrySleepTime (fst (GetConfig x))) = ms * 1000000"
proof -
  let ?s = "os_Getenv x ''SUMO_RETRY_SLEEP_TIME_MS''"
  have "RetrySleepTime (fst (GetConfig x)) =
      (if ?s = [] then word_of_int 300 * Millisecond
       else case ParseInt 32 ?s of (n, None) \<Rightarrow> word_of_int n * Millisecond | _ \<Rightarrow> word_of_int 0 * Millisecond)"
    by (simp add: GetConfig_fields setDefaults_fields delay_setting_def initial_config_def
        split: prod.split option.split)
  then consider "RetrySleepTime (fst (GetConfig x)) = word_of_int 300 * Millisecond"
    | "RetrySleepTime (fst (GetConfig x)) = word_of_int 0 * Millisecond"
    | n where "fst (ParseInt 32 ?s) = n" "RetrySleepTime (fst (GetConfig x)) = word_of_int n * Millisecond"
    by (cases "ParseInt 32 ?s") (auto split: if_splits option.splits)
  then show ?thesis
  proof cases
    case 1 then show ?thesis by (intro exI [of _ 300]) (simp add: Millisecond_def)
  next
    case 2 then show ?thesis by (intro exI [of _ 0]) simp
  next
    case 3
    then show ?thesis using ParseInt_bounds [of 32 ?s] by (intro exI [of _ n]) (simp add: sint_milliseconds)
  qed
qed

end
