(* ===== verification/SumoClient.thy ===== *)
theory SumoClient
  imports Config_Props
begin

text \<open>
  \<open>lambda-extensions/sumoclient/sumoclient.go\<close>: the client that enhances a payload, cuts it into
  chunks and posts them to the Sumo Logic endpoint with retries, falling back to S3. The package
  variables \<open>isColdStart\<close>, \<open>decryptedSumoHttpEndpoint\<close> and \<open>kmsEndpointCacheTime\<close> are fields of \<open>world\<close>;
  logging is left out. The context passed to a request only reaches the HTTP transport, which is
  external, so it has no parameter here.
\<close>

section \<open>Data\<close>

record sumoLogicClient =
  config :: LambdaExtensionConfig
  httpClient_Timeout :: "64 word"

text \<open>A \<open>responseBody\<close> is a slice of maps, each possibly nil.\<close>

type_synonym responseBody = "gomap option list"

definition NewLogSenderClient :: "LambdaExtensionConfig \<Rightarrow> sumoLogicClient" where
  "NewLogSenderClient cfg = \<lparr>config = cfg, httpClient_Timeout = ConnectionTimeoutValue cfg\<rparr>"

section \<open>Log group, log stream, cold start, endpoint\<close>

definition getColdStart :: "world \<Rightarrow> bool \<times> world" where
  "getColdStart w =
     (let w' = (if isColdStart w then w\<lparr>isColdStart := False\<rparr> else w)
      in (isColdStart w', w'))"

definition getLogGroup :: "sumoLogicClient \<Rightarrow> string" where
  "getLogGroup s = ''/aws/lambda/'' @ FunctionName (config s)"

definition getLogStream :: "ext \<Rightarrow> sumoLogicClient \<Rightarrow> world \<Rightarrow> string \<times> world" where
  "getLogStream x s w =
     (case now x w of
        (t, w') \<Rightarrow>
          let currentTime = time_UTC x t;
              currentDate = show_int (t_year currentTime) @ ''/'' @ show_int02 (t_month currentTime) @ ''/''
                @ show_int02 (t_day currentTime)
          in (currentDate @ ''/['' @ FunctionVersion (config s) @ '']'' @ ExtensionName x, w'))"

definition DecodeData :: "ext \<Rightarrow> kms_input \<Rightarrow> world \<Rightarrow> (error + bytes) \<times> world" where
  "DecodeData x input w =
     (kms_Decrypt x (w_tick w) input, (tick w)\<lparr>w_kms := w_kms w @ [input]\<rparr>)"

text \<open>
  The refresh of the endpoint. The short declaration in the source makes a local variable that
  hides the package variable \<open>decryptedSumoHttpEndpoint\<close>, so only the cache time is written.
\<close>

definition refreshEndpoint :: "ext \<Rightarrow> sumoLogicClient \<Rightarrow> world \<Rightarrow> (error + string) \<times> world" where
  "refreshEndpoint x s w =
     (case aws_LoadDefaultConfig x (w_tick w) of
        Some err \<Rightarrow> (Inl (ErrAwsConfig err), tick w)
      | None \<Rightarrow>
          (case b64_decode (SumoHTTPEndpoint (config s)) of
             None \<Rightarrow> (Inl ErrToBlob, tick w)
           | Some blob \<Rightarrow>
               (case DecodeData x
                       \<lparr>CiphertextBlob = blob, KeyId = KMSKeyId (config s),
                        EncryptionContext = [(''LambdaFunctionName'', os_Getenv x ''AWS_LAMBDA_FUNCTION_NAME'')]\<rparr>
                       (tick w) of
                  (Inl err, w1) \<Rightarrow> (Inl (ErrDecrypting err), w1)
                | (Inr plaintext, w1) \<Rightarrow>
                    (case now x w1 of
                       (t, w2) \<Rightarrow> (Inr plaintext, w2\<lparr>kmsEndpointCacheTime := t_nanos t\<rparr>)))))"

definition getHttpEndpoint :: "ext \<Rightarrow> sumoLogicClient \<Rightarrow> world \<Rightarrow> (error + string) \<times> world" where
  "getHttpEndpoint x s w =
     (if KMSKeyId (config s) = [] then (Inr (SumoHTTPEndpoint (config s)), w)
      else (case now x w of
        (t1, w1) \<Rightarrow>
          if kmsEndpointCacheTime w1 - t_nanos t1 > 0 then (Inr (decryptedSumoHttpEndpoint w1), w1)
          else (case now x w1 of
            (t2, w2) \<Rightarrow>
              if kmsEndpointCacheTime w2 - t_nanos t2 \<le> 0 \<or> KmsCacheSeconds (config s) = 0
              then refreshEndpoint x s w2
              else (Inl ErrNoValidEndpoint, w2))))"

section \<open>Requests and failover\<close>

definition sumo_headers :: "ext \<Rightarrow> sumoLogicClient \<Rightarrow> string \<Rightarrow> (string \<times> string) list" where
  "sumo_headers x s logStream =
     (let h = header_Add ''Content-Encoding'' ''gzip'' [];
          h = header_Add ''X-Sumo-Client'' (SumoLogicExtensionLayerVersionSuffix x) h;
          h = header_Add ''X-Sumo-Name'' logStream h;
          h = header_Add ''X-Sumo-Host'' (getLogGroup s) h
      in if SourceCategoryOverride (config s) \<noteq> []
         then header_Add ''X-Sumo-Category'' (SourceCategoryOverride (config s)) h else h)"

definition makeRequest :: "ext \<Rightarrow> sumoLogicClient \<Rightarrow> bytes \<Rightarrow> world \<Rightarrow> (error + response) \<times> world" where
  "makeRequest x s buf w =
     (case getHttpEndpoint x s w of
        (Inl err, w1) \<Rightarrow> (Inl (ErrGetEndpoint err), w1)
      | (Inr endpoint, w1) \<Rightarrow>
          (case http_NewRequest x ''POST'' endpoint of
             Some err \<Rightarrow> (Inl (ErrNewRequest err), w1)
           | None \<Rightarrow>
               (case getLogStream x s w1 of
                  (logStream, w2) \<Rightarrow>
                    do_http x \<lparr>rq_method = ''POST'', rq_url = endpoint,
                               rq_header = sumo_headers x s logStream, rq_body = buf\<rparr> w2)))"

definition getS3KeyName :: "ext \<Rightarrow> sumoLogicClient \<Rightarrow> world \<Rightarrow> (error + string) \<times> world" where
  "getS3KeyName x s w =
     (case now x w of
        (t, w1) \<Rightarrow>
          (case uuid_NewUUID x (w_tick w1) of
             Inl err \<Rightarrow> (Inl err, tick w1)
           | Inr uniqueID \<Rightarrow>
               (Inr (ExtensionName x @ ''/'' @ LambdaRegion (config s) @ ''/'' @ FunctionName (config s) @ ''/''
                   @ FunctionVersion (config s) @ ''/'' @ show_int (t_year t) @ ''/'' @ show_int02 (t_month t)
                   @ ''/'' @ show_int02 (t_day t) @ ''/'' @ show_int02 (t_hour t) @ ''/'' @ show_int (t_minute t)
                   @ ''/'' @ uniqueID @ ''.gz''),
                tick w1)))"

definition failoverHandler :: "ext \<Rightarrow> sumoLogicClient \<Rightarrow> bytes \<Rightarrow> world \<Rightarrow> error option \<times> world" where
  "failoverHandler x s buf w =
     (if EnableFailover (config s) then
        (case getS3KeyName x s w of
           (Inl err, w1) \<Rightarrow> (Some err, w1)
         | (Inr keyName, w1) \<Rightarrow>
             (case UploadToS3 x (S3BucketName (config s)) keyName buf w1 of
                (Some err, w2) \<Rightarrow> (Some (ErrSendToS3 (S3BucketName (config s)) keyName err), w2)
              | (None, w2) \<Rightarrow> (None, w2)))
      else (None, w))"

section \<open>Enhancing\<close>

definition get_or_nil :: "gomap \<Rightarrow> string \<Rightarrow> gv" where
  "get_or_nil m k = (case map_get m k of None \<Rightarrow> VNil | Some v \<Rightarrow> v)"

definition report_line :: "gomap \<Rightarrow> gomap \<Rightarrow> string" where
  "report_line message metric =
     ''REPORT RequestId: '' @ fmt_v (get_or_nil message ''requestId'')
     @ CHR 0x09 # ''Duration: '' @ fmt_v (get_or_nil metric ''durationMs'')
     @ '' ms'' @ CHR 0x09 # ''Billed Duration: '' @ fmt_v (get_or_nil metric ''billedDurationMs'')
     @ '' ms '' @ CHR 0x09 # ''Memory Size: '' @ fmt_v (get_or_nil metric ''memorySizeMB'')
     @ '' MB'' @ CHR 0x09 # ''Max Memory Used: '' @ fmt_v (get_or_nil metric ''maxMemoryUsedMB'') @ '' MB''"

text \<open>
  The comma-ok assertion on \<open>record\<close> leaves the nil map, and reading \<open>metrics\<close> from it is the nil
  value; the second assertion has no comma-ok, so anything but a map there is a panic.
\<close>

definition createCWLogLine :: "gomap \<Rightarrow> gomap outcome" where
  "createCWLogLine item =
     (let message = (case map_get item ''record'' of Some (VMap m) \<Rightarrow> m | _ \<Rightarrow> [])
      in (case get_or_nil message ''metrics'' of
            VMap metric \<Rightarrow>
              (if get_or_nil metric ''initDurationMs'' = VNil
               then Ret (map_put ''message'' (VString (report_line message metric)) item)
               else Ret (map_put ''message'' (VString (report_line message metric
                      @ CHR 0x09 # ''Init Duration: '' @ fmt_v (get_or_nil metric ''initDurationMs'') @ '' ms'')) item))
          | _ \<Rightarrow> Panic FailedTypeAssertion))"

definition gv_of_map :: "gomap option \<Rightarrow> gv" where
  "gv_of_map m = (case m of None \<Rightarrow> VNil | Some kv \<Rightarrow> VMap kv)"

text \<open>The branch for \<open>function\<close> logs; the result is what the slice holds at the index afterwards.\<close>

definition enhanceFunctionLog :: "sumoLogicClient \<Rightarrow> gomap \<Rightarrow> gomap option" where
  "enhanceFunctionLog s item =
     (let message0 = (case map_get item ''record'' of Some (VString m) \<Rightarrow> m | _ \<Rightarrow> []);
          item = (case map_get item ''record'' of Some (VString m) \<Rightarrow> map_del ''record'' item | _ \<Rightarrow> item);
          message = TrimSpace message0
      in (case ParseJson message of
            Inl err \<Rightarrow>
              if EnhanceJsonLogs (config s) then Some (map_put ''message'' (VString message) item)
              else Some (map_put ''message'' (VString message) [])
          | Inr json \<Rightarrow>
              if EnhanceJsonLogs (config s) then Some (map_put ''message'' (gv_of_map json) item)
              else json))"

definition dropSpans :: "sumoLogicClient \<Rightarrow> gomap \<Rightarrow> gomap" where
  "dropSpans s item =
     (case map_get item ''record'' of
        Some (VMap message) \<Rightarrow>
          if map_get message ''spans'' \<noteq> None \<and> EnableSpanDrops (config s)
          then map_put ''record'' (VMap (map_del ''spans'' message)) item
          else item
      | _ \<Rightarrow> item)"

text \<open>The four fields every item gets first, in the order of the source.\<close>

definition addMetadata :: "ext \<Rightarrow> sumoLogicClient \<Rightarrow> gomap \<Rightarrow> world \<Rightarrow> gomap \<times> world" where
  "addMetadata x s item w =
     (let item = map_put ''logGroup'' (VString (getLogGroup s)) item
      in (case getLogStream x s w of
            (logStream, w1) \<Rightarrow>
              let item = map_put ''logStream'' (VString logStream) item
              in (case getColdStart w1 of
                    (cold, w2) \<Rightarrow>
                      let item = map_put ''IsColdStart'' (VBool cold) item
                      in (map_put ''LayerVersion'' (VString (SumoLogicExtensionLayerVersionSuffix x)) item, w2))))"

definition enhanceByType :: "sumoLogicClient \<Rightarrow> gomap \<Rightarrow> gomap option outcome" where
  "enhanceByType s item =
     (case map_get item ''type'' of
        Some (VString logType) \<Rightarrow>
          if logType = ''function'' then Ret (enhanceFunctionLog s item)
          else if logType = ''platform.report'' then
            (case createCWLogLine item of Ret item' \<Rightarrow> Ret (Some item') | Panic p \<Rightarrow> Panic p | Hang \<Rightarrow> Hang)
          else if logType = ''platform.runtimeDone'' then Ret (Some (dropSpans s item))
          else Ret (Some item)
      | _ \<Rightarrow> Ret (Some item))"

definition enhanceItem :: "ext \<Rightarrow> sumoLogicClient \<Rightarrow> gomap option \<Rightarrow> (world, gomap option) action" where
  "enhanceItem x s item w =
     (case item of
        None \<Rightarrow> (Panic NilMapWrite, w)
      | Some m \<Rightarrow> (case addMetadata x s m w of (m', w') \<Rightarrow> (enhanceByType s m', w')))"

fun enhanceLogs :: "ext \<Rightarrow> sumoLogicClient \<Rightarrow> responseBody \<Rightarrow> (world, responseBody) action" where
  "enhanceLogs x s [] w = (Ret [], w)"
| "enhanceLogs x s (item # msg) w =
     bindA (enhanceItem x s item) (\<lambda>item'. bindA (enhanceLogs x s msg) (\<lambda>msg'. returnA (item' # msg'))) w"

section \<open>Payloads and chunks\<close>

definition transformBytesToArrayOfMap :: "bytes \<Rightarrow> error + responseBody" where
  "transformBytesToArrayOfMap rawmsg =
     (case json_parse rawmsg of
        None \<Rightarrow> Inl (ErrParsePayload rawmsg ErrJson)
      | Some j \<Rightarrow>
          (case to_responseBody j of
             None \<Rightarrow> Inl (ErrParsePayload rawmsg ErrJson)
           | Some msg \<Rightarrow> Inr msg))"

text \<open>The loop of \<open>createChunks\<close>, with its variables \<open>chunks\<close>, \<open>currentChunk\<close>, \<open>chunkSize\<close>, \<open>errorCount\<close>.\<close>

fun chunk_loop :: "int \<Rightarrow> responseBody \<Rightarrow> string list \<Rightarrow> string \<Rightarrow> int \<Rightarrow> nat \<Rightarrow> string list \<times> string \<times> nat" where
  "chunk_loop maxSize [] chunks currentChunk chunkSize errorCount = (chunks, currentChunk, errorCount)"
| "chunk_loop maxSize (item # items) chunks currentChunk chunkSize errorCount =
     (case marshal_map item of
        None \<Rightarrow> chunk_loop maxSize items chunks currentChunk chunkSize (Suc errorCount)
      | Some b \<Rightarrow>
          let itemSize = int (length b)
          in if chunkSize + itemSize + 1 \<ge> maxSize
             then chunk_loop maxSize items (chunks @ [currentChunk]) b itemSize errorCount
             else chunk_loop maxSize items chunks (currentChunk @ newline # b) (chunkSize + (itemSize + 1)) errorCount)"

definition createChunks :: "sumoLogicClient \<Rightarrow> responseBody \<Rightarrow> string list \<times> error option" where
  "createChunks s msgArr =
     (case chunk_loop (MaxDataPayloadSize (config s)) msgArr [] [] 0 0 of
        (chunks, currentChunk, errorCount) \<Rightarrow>
          (chunks @ [currentChunk],
           if errorCount > 0 then Some (ErrChunksDropped errorCount) else None))"

section \<open>Posting\<close>

definition retryable :: "int \<Rightarrow> bool" where
  "retryable code \<longleftrightarrow> code \<noteq> 200 \<and> code \<noteq> 302 \<and> code < 500"

text \<open>The function retried by \<open>postToSumo\<close>: sleep, send a fresh copy of the buffer, judge the answer.\<close>

definition postAttempt :: "ext \<Rightarrow> sumoLogicClient \<Rightarrow> bytes \<Rightarrow> world Func" where
  "postAttempt x s bytedata attempt w =
     (case makeRequest x s bytedata (sleep (RetrySleepTime (config s)) w) of
        (Inl errRetry, w') \<Rightarrow> ((attempt < MaxRetryAttempts (config s), Some errRetry), w')
      | (Inr retryResponse, w') \<Rightarrow>
          if retryable (StatusCode retryResponse)
          then ((attempt < MaxRetryAttempts (config s), Some (ErrStatusCode (StatusCode retryResponse))), w')
          else if StatusCode retryResponse = 200 then ((True, None), w')
          else ((attempt < MaxRetryAttempts (config s), None), w'))"

definition needsRetry :: "error + response \<Rightarrow> bool" where
  "needsRetry r = (case r of Inl _ \<Rightarrow> True | Inr rs \<Rightarrow> retryable (StatusCode rs))"

definition postToSumo :: "ext \<Rightarrow> sumoLogicClient \<Rightarrow> string \<Rightarrow> world \<Rightarrow> error option \<times> world" where
  "postToSumo x s logStringToSend w =
     (case Compress x logStringToSend of
        Inl err \<Rightarrow> (Some (ErrCompress err), w)
      | Inr bytedata \<Rightarrow>
          (case makeRequest x s bytedata w of
             (r, w1) \<Rightarrow>
               if needsRetry r then
                 (case Retry (postAttempt x s bytedata) (NumRetry (config s)) w1 of
                    (Some err, w2) \<Rightarrow>
                      if EnableFailover (config s) then
                        (case failoverHandler x s bytedata w2 of
                           (Some err', w3) \<Rightarrow> (Some err', w3)
                         | (None, w3) \<Rightarrow> (None, w3))
                      else (None, w2)
                  | (None, w2) \<Rightarrow> (None, w2))
               else (None, w1)))"

text \<open>The loops over the chunks of \<open>SendLogs\<close> and \<open>SendAllLogs\<close>: the number of posts with an error.\<close>

fun postChunks :: "ext \<Rightarrow> sumoLogicClient \<Rightarrow> string list \<Rightarrow> nat \<Rightarrow> world \<Rightarrow> nat \<times> world" where
  "postChunks x s [] errorCount w = (errorCount, w)"
| "postChunks x s (strobj # chunks) errorCount w =
     (case postToSumo x s strobj w of
        (Some err, w') \<Rightarrow> postChunks x s chunks (Suc errorCount) w'
      | (None, w') \<Rightarrow> postChunks x s chunks errorCount w')"

section \<open>The operations of LogSender\<close>

definition SendLogs :: "ext \<Rightarrow> sumoLogicClient \<Rightarrow> bytes \<Rightarrow> (world, error option) action" where
  "SendLogs x s rawmsg w =
     (if length rawmsg > 0 then
        (case transformBytesToArrayOfMap rawmsg of
           Inl err \<Rightarrow> (Ret (Some (ErrSendLogsTransform err)), w)
         | Inr msgArr \<Rightarrow>
             bindA (enhanceLogs x s msgArr)
               (\<lambda>msgArr w1.
                  case createChunks s msgArr of
                    (chunks, Some err) \<Rightarrow> (Ret (Some (ErrSendLogsChunks err)), w1)
                  | (chunks, None) \<Rightarrow>
                      (case postChunks x s chunks 0 w1 of
                         (errorCount, w2) \<Rightarrow>
                           (Ret (if errorCount > 0 then Some (ErrSendLogsPost errorCount) else None), w2)))
               w)
      else (Ret None, w))"

text \<open>The first loop of \<open>SendAllLogs\<close>: payloads that do not parse are counted and skipped.\<close>

fun gatherPayload ::
  "ext \<Rightarrow> sumoLogicClient \<Rightarrow> bytes list \<Rightarrow> nat \<Rightarrow> responseBody \<Rightarrow> (world, nat \<times> responseBody) action" where
  "gatherPayload x s [] errorCount payload w = (Ret (errorCount, payload), w)"
| "gatherPayload x s (rawmsg # allMessages) errorCount payload w =
     (case transformBytesToArrayOfMap rawmsg of
        Inl err \<Rightarrow> gatherPayload x s allMessages (Suc errorCount) payload w
      | Inr msgArr \<Rightarrow>
          if length msgArr > 0
          then bindA (enhanceLogs x s msgArr)
                 (\<lambda>msgArr. gatherPayload x s allMessages errorCount (payload @ msgArr)) w
          else gatherPayload x s allMessages errorCount payload w)"

definition SendAllLogs :: "ext \<Rightarrow> sumoLogicClient \<Rightarrow> bytes list \<Rightarrow> (world, error option) action" where
  "SendAllLogs x s allMessages w =
     (if length allMessages = 0 then (Ret None, w)
      else bindA (gatherPayload x s allMessages 0 [])
        (\<lambda>(errorCount, payload) w1.
           case createChunks s payload of
             (chunks, Some err) \<Rightarrow> (Ret (Some (ErrSendAllChunks err)), w1)
           | (chunks, None) \<Rightarrow>
               (case postChunks x s chunks errorCount w1 of
                  (errorCount, w2) \<Rightarrow>
                    (Ret (if errorCount > 0 then Some (ErrSendAllPost errorCount) else None), w2)))
        w)"

text \<open>The loop of \<open>FlushAll\<close> over the items of one payload, and the loop over the payloads.\<close>

fun flushItems :: "responseBody \<Rightarrow> nat \<Rightarrow> string \<Rightarrow> nat \<times> string" where
  "flushItems [] errorCount payload = (errorCount, payload)"
| "flushItems (item # msgArr) errorCount payload =
     (case marshal_map item of
        None \<Rightarrow> flushItems msgArr (Suc errorCount) payload
      | Some b \<Rightarrow> flushItems msgArr errorCount (payload @ newline # b))"

fun flushPayload ::
  "ext \<Rightarrow> sumoLogicClient \<Rightarrow> bytes list \<Rightarrow> nat \<Rightarrow> string \<Rightarrow> (world, nat \<times> string) action" where
  "flushPayload x s [] errorCount payload w = (Ret (errorCount, payload), w)"
| "flushPayload x s (rawmsg # msgQueue) errorCount payload w =
     (case transformBytesToArrayOfMap rawmsg of
        Inl err \<Rightarrow> flushPayload x s msgQueue (Suc errorCount) payload w
      | Inr msgArr \<Rightarrow>
          if length msgArr > 0
          then bindA (enhanceLogs x s msgArr)
                 (\<lambda>msgArr. case flushItems msgArr errorCount payload of
                             (errorCount, payload) \<Rightarrow> flushPayload x s msgQueue errorCount payload) w
          else flushPayload x s msgQueue errorCount payload w)"

definition FlushAll :: "ext \<Rightarrow> sumoLogicClient \<Rightarrow> bytes list \<Rightarrow> (world, error option) action" where
  "FlushAll x s msgQueue w =
     (if length msgQueue > 0 \<and> EnableFailover (config s) then
        bindA (flushPayload x s msgQueue 0 [])
          (\<lambda>(errorCount, payload) w1.
             case CompressBuffer x payload of
               Inl err \<Rightarrow> (Ret (Some (ErrFlushCompress err)), w1)
             | Inr gzippedBuffer \<Rightarrow>
                 (case failoverHandler x s gzippedBuffer w1 of
                    (senderr, w2) \<Rightarrow>
                      (Ret (if errorCount > 0 \<or> senderr \<noteq> None
                            then Some (ErrFlushAll errorCount senderr) else None), w2)))
          w
      else (Ret None, w))"

end
