(* ===== verification/Chunks.thy ===== *)
theory Chunks
  imports SumoClient
begin

text \<open>
  Correctness of \<open>createChunks\<close>: the chunks hold exactly the marshalled items, in order and one per
  line, and every chunk stays below the payload limit unless it is a single item. The loop keeps
  \<open>chunkSize\<close> equal to the length of \<open>currentChunk\<close>.
\<close>

section \<open>The loop\<close>

abbreviation marshalled :: "responseBody \<Rightarrow> string list" where
  "marshalled items \<equiv> List.map_filter marshal_map items"

definition framed :: "string list \<Rightarrow> string" where
  "framed bs = concat (map (\<lambda>b. newline # b) bs)"

lemma framed_simps [simp]: "framed [] = []" "framed (b # bs) = newline # b @ framed bs"
  by (simp_all add: framed_def)

lemma map_filter_marshal_Cons:
  "marshalled (item # items) =
     (case marshal_map item of None \<Rightarrow> marshalled items | Some b \<Rightarrow> b # marshalled items)"
  by (simp add: List.map_filter_simps)

lemma joinStr_extend_last: "joinStr sep (xs @ [y @ z]) = joinStr sep (xs @ [y]) @ z"
  by (cases "xs = []") (simp_all add: joinStr_snoc)

lemma chunk_loop_text:
  "chunk_loop M items chunks cur sz e = (chunks', cur', e') \<Longrightarrow>
   joinStr [newline] (chunks' @ [cur']) = joinStr [newline] (chunks @ [cur]) @ framed (marshalled items)"
proof (induction M items chunks cur sz e rule: chunk_loop.induct)
  case (2 M item items chunks cur sz e)
  show ?case
  proof (cases "marshal_map item")
    case (Some b)
    show ?thesis
    proof (cases "sz + int (length b) + 1 \<ge> M")
      case True
      with 2 Some have "joinStr [newline] (chunks' @ [cur'])
          = joinStr [newline] ((chunks @ [cur]) @ [b]) @ framed (marshalled items)"
        by (simp add: Let_def)
      then show ?thesis using Some joinStr_snoc [of "chunks @ [cur]" "[newline]" b]
        by (simp add: map_filter_marshal_Cons)
    next
      case False
      with 2 Some have "joinStr [newline] (chunks' @ [cur'])
          = joinStr [newline] (chunks @ [cur @ newline # b]) @ framed (marshalled items)"
        by (simp add: Let_def)
      then show ?thesis using Some by (simp add: joinStr_extend_last map_filter_marshal_Cons)
    qed
  qed (use 2 in \<open>simp add: map_filter_marshal_Cons\<close>)
qed (simp add: List.map_filter_simps)

definition small_chunk :: "int \<Rightarrow> string list \<Rightarrow> string \<Rightarrow> bool" where
  "small_chunk M bs c \<longleftrightarrow> c = [] \<or> int (length c) < M \<or> c \<in> set bs"

lemma small_chunk_mono: "small_chunk M bs c \<Longrightarrow> set bs \<subseteq> set bs' \<Longrightarrow> small_chunk M bs' c"
  by (auto simp: small_chunk_def)

lemma chunk_loop_sizes:
  "chunk_loop M items chunks cur sz e = (chunks', cur', e') \<Longrightarrow> sz = int (length cur) \<Longrightarrow>
   list_all (small_chunk M (bs @ marshalled items)) (chunks @ [cur]) \<Longrightarrow>
   list_all (small_chunk M (bs @ marshalled items)) (chunks' @ [cur'])"
proof (induction M items chunks cur sz e arbitrary: bs rule: chunk_loop.induct)
  case (2 M item items chunks cur sz e)
  show ?case
  proof (cases "marshal_map item")
    case None
    with 2 show ?thesis by (simp add: map_filter_marshal_Cons)
  next
    case (Some b)
    then have bs: "bs @ marshalled (item # items) = (bs @ [b]) @ marshalled items"
      by (simp add: map_filter_marshal_Cons)
    show ?thesis
    proof (cases "sz + int (length b) + 1 \<ge> M")
      case True
      moreover have "small_chunk M ((bs @ [b]) @ marshalled items) b" by (simp add: small_chunk_def)
      ultimately show ?thesis using 2(4-6) Some 2(2) [OF Some refl, where bs = "bs @ [b]"] unfolding bs
        by (simp add: Let_def)
    next
      case False
      moreover have "small_chunk M ((bs @ [b]) @ marshalled items) (cur @ newline # b)"
        using False 2(5) by (simp add: small_chunk_def)
      ultimately show ?thesis using 2(4-6) Some 2(3) [OF Some refl, where bs = "bs @ [b]"] unfolding bs
        by (simp add: Let_def add.assoc)
    qed
  qed
qed simp

lemma chunk_loop_errors:
  "chunk_loop M items chunks cur sz e = (chunks', cur', e') \<Longrightarrow>
   e' + length (marshalled items) = e + length items"
proof (induction M items chunks cur sz e rule: chunk_loop.induct)
  case (2 M item items chunks cur sz e)
  then show ?case
    by (cases "marshal_map item") (auto simp: map_filter_marshal_Cons Let_def split: if_splits)
qed (simp add: List.map_filter_simps)

section \<open>Lines\<close>

lemma nonempty_lines_joinStr:
  "nonempty_lines (joinStr [newline] xs) = concat (map nonempty_lines xs)"
  by (induction "[newline]" xs rule: joinStr.induct) (simp_all add: nonempty_lines_sep)

lemma nonempty_lines_framed:
  "\<forall>b \<in> set bs. newline \<notin> set b \<and> b \<noteq> [] \<Longrightarrow> nonempty_lines (framed bs) = bs"
proof (induction bs)
  case (Cons b bs)
  then have "nonempty_lines (b @ framed bs) = b # nonempty_lines (framed bs)"
    by (cases bs) (simp_all add: nonempty_lines_single nonempty_lines_sep nonempty_lines_Cons_newline)
  with Cons show ?case by (simp add: nonempty_lines_Cons_newline)
qed simp

lemma marshalled_text: "b \<in> set (marshalled items) \<Longrightarrow> newline \<notin> set b \<and> b \<noteq> []"
  by (induction items)
     (auto simp: map_filter_marshal_Cons List.map_filter_simps(2) split: option.splits dest: marshal_map_text)

section \<open>The result\<close>

lemma createChunks_result:
  "concat (map nonempty_lines (fst (createChunks s msgArr))) = marshalled msgArr"
  "snd (createChunks s msgArr) =
     (if length (marshalled msgArr) < length msgArr
      then Some (ErrChunksDropped (length msgArr - length (marshalled msgArr))) else None)"
proof -
  obtain chunks cur e where loop:
    "chunk_loop (MaxDataPayloadSize (config s)) msgArr [] [] 0 0 = (chunks, cur, e)"
    by (metis prod.exhaust)
  have "concat (map nonempty_lines (chunks @ [cur])) = nonempty_lines (framed (marshalled msgArr))"
    using chunk_loop_text [OF loop] nonempty_lines_joinStr [of "chunks @ [cur]"] by simp
  also have "\<dots> = marshalled msgArr"
    using marshalled_text by (intro nonempty_lines_framed) blast
  finally show "concat (map nonempty_lines (fst (createChunks s msgArr))) = marshalled msgArr"
    by (simp add: createChunks_def loop)
  from chunk_loop_errors [OF loop] have "e = length msgArr - length (marshalled msgArr)" by simp
  then show "snd (createChunks s msgArr) =
     (if length (marshalled msgArr) < length msgArr
      then Some (ErrChunksDropped (length msgArr - length (marshalled msgArr))) else None)"
    by (simp add: createChunks_def loop)
qed

section \<open>Properties\<close>

text \<open>
  C1. The chunks of \<open>createChunks\<close> carry exactly the items of the payload that marshal: read line by
  line and in order, the non-empty lines of the chunks are the JSON texts of those items, each
  once. Nothing is lost, duplicated, reordered or cut at a chunk boundary.
\<close>

theorem createChunks_content:
  "concat (map nonempty_lines (fst (createChunks s msgArr))) = marshalled msgArr"
  by (rule createChunks_result)

text \<open>
  C22. Every chunk is empty, shorter than \<open>MaxDataPayloadSize\<close>, or the text of one single item:
  only an item that is too large by itself makes a chunk of the limit or more.
\<close>

theorem createChunks_size:
  "list_all (small_chunk (MaxDataPayloadSize (config s)) (marshalled msgArr)) (fst (createChunks s msgArr))"
proof -
  obtain chunks cur e where loop:
    "chunk_loop (MaxDataPayloadSize (config s)) msgArr [] [] 0 0 = (chunks, cur, e)"
    by (metis prod.exhaust)
  from chunk_loop_sizes [OF loop, of "[]"] show ?thesis
    by (simp add: createChunks_def loop small_chunk_def)
qed

end
