(* ===== verification/Samples.thy ===== *)
theory Samples
  imports SumoClient
begin

text \<open>
  Concrete inputs at which theorems with hypotheses are applied: an environment in which every
  external operation succeeds (the compressor is the identity, the clock advances with every
  reading, the server answers 200), the initial state of the package variables, a configuration
  and a client. Variants are made by record updates.
\<close>

definition sample_time :: "nat \<Rightarrow> gotime" where
  "sample_time n =
     \<lparr>t_nanos = int n, t_year = 2024, t_month = 5, t_day = 7, t_hour = 3, t_minute = 9\<rparr>"

definition sample_ext :: ext where
  "sample_ext =
     \<lparr>os_LookupEnv = (\<lambda>k. None), os_Arg0 = ''/opt/extensions/sumologic-extension'',
      url_ParseRequestURI = (\<lambda>u. None), http_NewRequest = (\<lambda>m u. None),
      http_Do = (\<lambda>n rq. Inr \<lparr>StatusCode = 200, rs_header = [], rs_body = Inr []\<rparr>),
      s3_Upload = (\<lambda>n p. None), aws_LoadDefaultConfig = (\<lambda>n. None),
      kms_Decrypt = (\<lambda>n i. Inr ''https://collector''), uuid_NewUUID = (\<lambda>n. Inr ''u-1''),
      time_Now = sample_time, time_UTC = (\<lambda>t. t), logrus_ParseLevel = (\<lambda>l. Inr 4),
      gzip_Write = (\<lambda>b. None), gzip_Close = (\<lambda>b. None), gzip_Output = (\<lambda>b. b),
      http_ListenAndServe = (\<lambda>a. Hang)\<rparr>"

definition sample_world :: world where
  "sample_world =
     \<lparr>w_tick = 0, w_http = [], w_puts = [], w_kms = [], w_slept = [], isColdStart = True,
      decryptedSumoHttpEndpoint = [], kmsEndpointCacheTime = -300000000000\<rparr>"

definition sample_cfg :: LambdaExtensionConfig where
  "sample_cfg = (fst (GetConfig sample_ext))\<lparr>SumoHTTPEndpoint := ''https://sumo''\<rparr>"

definition sample_client :: sumoLogicClient where
  "sample_client = NewLogSenderClient sample_cfg"

definition sample_item :: gomap where
  "sample_item = [(''record'', VString ''hi''), (''type'', VString ''function'')]"

lemmas sample_defs =
  sample_ext_def sample_world_def sample_client_def NewLogSenderClient_def sample_cfg_def sample_item_def

lemma sample_cfg_simps [simp]:
  "KMSKeyId sample_cfg = []" "SumoHTTPEndpoint sample_cfg = ''https://sumo''"
  "EnhanceJsonLogs sample_cfg" "\<not> EnableFailover sample_cfg" "NumRetry sample_cfg = 3"
  "MaxDataPayloadSize sample_cfg = 1048576" "MaxRetryAttempts sample_cfg = 5"
  "MaxDataQueueLength sample_cfg = 20" "MaxConcurrentRequests sample_cfg = 3"
  by code_simp+

lemma sample_client_config [simp]: "config sample_client = sample_cfg"
  by (simp add: sample_client_def NewLogSenderClient_def)

end
