(* ===== verification/Enhance.thy ===== *)
theory Enhance
  imports Chunks Samples
begin

text \<open>
  Correctness of \<open>enhanceLogs\<close>: which items make it panic, that it keeps payloads well formed (so that
  every item marshals afterwards), the fields every enhanced item carries and the fields it
  leaves alone.
\<close>

section \<open>Items that make the code panic\<close>

definition has_type :: "string \<Rightarrow> gomap \<Rightarrow> bool" where
  "has_type t m = (map_get m ''type'' = Some (VString t))"

definition has_metrics :: "gomap \<Rightarrow> bool" where
  "has_metrics m =
     (case map_get m ''record'' of
        Some (VMap r) \<Rightarrow> (case map_get r ''metrics'' of Some (VMap _) \<Rightarrow> True | _ \<Rightarrow> False)
      | _ \<Rightarrow> False)"

fun safe_item :: "gomap option \<Rightarrow> bool" where
  "safe_item None = False"
| "safe_item (Some m) = (if has_type ''platform.report'' m then has_metrics m else True)"

fun wf_item :: "gomap option \<Rightarrow> bool" where
  "wf_item None = True"
| "wf_item (Some m) = wf_gomap m"

definition wf_body :: "responseBody \<Rightarrow> bool" where
  "wf_body = list_all wf_item"

lemma wf_body_simps [simp]:
  "wf_body []" "wf_body (i # is) \<longleftrightarrow> wf_item i \<and> wf_body is" "wf_body (is @ js) \<longleftrightarrow> wf_body is \<and> wf_body js"
  by (simp_all add: wf_body_def)

lemma transform_wf: "transformBytesToArrayOfMap raw = Inr msg \<Longrightarrow> wf_body msg"
  unfolding wf_body_def list_all_iff
proof
  fix i assume "transformBytesToArrayOfMap raw = Inr msg" and "i \<in> set msg"
  then show "wf_item i"
    by (cases i) (auto simp: transformBytesToArrayOfMap_def split: option.splits dest: to_responseBody_wf)
qed

lemma marshalled_wf_length: "wf_body items \<Longrightarrow> length (marshalled items) = length items"
proof (induction items)
  case (Cons i items)
  have "\<exists>b. marshal_map i = Some b"
    using Cons.prems marshal_map_wf by (cases i) (auto simp: marshal_map_def [of None])
  with Cons show ?case by (auto simp: map_filter_marshal_Cons)
qed (simp add: List.map_filter_simps)

section \<open>One item\<close>

definition metadata_keys :: "string list" where
  "metadata_keys = [''logGroup'', ''logStream'', ''IsColdStart'', ''LayerVersion'']"

definition stream_at :: "ext \<Rightarrow> sumoLogicClient \<Rightarrow> nat \<Rightarrow> string" where
  "stream_at x s n =
     (let t = time_UTC x (time_Now x n)
      in show_int (t_year t) @ ''/'' @ show_int02 (t_month t) @ ''/'' @ show_int02 (t_day t)
         @ ''/['' @ FunctionVersion (config s) @ '']'' @ ExtensionName x)"

lemma getLogStream_eq: "getLogStream x s w = (stream_at x s (w_tick w), tick w)"
  by (simp add: getLogStream_def stream_at_def now_def Let_def)

lemma getColdStart_eq: "getColdStart w = (False, w\<lparr>isColdStart := False\<rparr>)"
  by (cases w) (simp add: getColdStart_def Let_def)

definition with_metadata :: "ext \<Rightarrow> sumoLogicClient \<Rightarrow> nat \<Rightarrow> gomap \<Rightarrow> gomap" where
  "with_metadata x s n m =
     map_put ''LayerVersion'' (VString (SumoLogicExtensionLayerVersionSuffix x))
       (map_put ''IsColdStart'' (VBool False)
         (map_put ''logStream'' (VString (stream_at x s n))
           (map_put ''logGroup'' (VString (getLogGroup s)) m)))"

lemma addMetadata_eq:
  "addMetadata x s m w = (with_metadata x s (w_tick w) m, (tick w)\<lparr>isColdStart := False\<rparr>)"
  by (simp add: addMetadata_def getLogStream_eq getColdStart_eq with_metadata_def Let_def)

lemma with_metadata_wf [simp]: "wf_gomap m \<Longrightarrow> wf_gomap (with_metadata x s n m)"
  by (simp add: with_metadata_def)

lemma with_metadata_get:
  "wf_gomap m \<Longrightarrow> map_get (with_metadata x s n m) k =
     (if k = ''LayerVersion'' then Some (VString (SumoLogicExtensionLayerVersionSuffix x))
      else if k = ''IsColdStart'' then Some (VBool False)
      else if k = ''logStream'' then Some (VString (stream_at x s n))
      else if k = ''logGroup'' then Some (VString (getLogGroup s))
      else map_get m k)"
  by (simp add: with_metadata_def)

lemma createCWLogLine_panic: "\<not> has_metrics m \<Longrightarrow> createCWLogLine m = Panic FailedTypeAssertion"
  by (auto simp: createCWLogLine_def has_metrics_def get_or_nil_def [of _ "''metrics''"]
      simp del: map_put.simps split: option.splits gv.splits) (metis gv.exhaust)

lemma createCWLogLine_ret:
  assumes "has_metrics m"
  shows "\<exists>line. createCWLogLine m = Ret (map_put ''message'' (VString line) m)"
proof -
  from assms obtain r where r: "map_get m ''record'' = Some (VMap r)"
    by (simp add: has_metrics_def split: option.splits gv.splits)
  with assms obtain mt where "map_get r ''metrics'' = Some (VMap mt)"
    by (simp add: has_metrics_def split: option.splits gv.splits)
  with r show ?thesis by (auto simp: createCWLogLine_def get_or_nil_def [of r "''metrics''"])
qed

lemma enhanceFunctionLog_wf: "wf_gomap m \<Longrightarrow> wf_item (enhanceFunctionLog s m)"
proof -
  assume m: "wf_gomap m"
  have json: "wf_item j \<and> wf_gv (gv_of_map j)" if "ParseJson t = Inr j" for t j
    using that ParseJson_wf by (cases j) (auto simp: gv_of_map_def)
  show ?thesis
    using m wf_gomap_put [OF wf_gomap_Nil] by (auto simp: enhanceFunctionLog_def Let_def json split: option.splits gv.splits sum.splits)
qed

lemma dropSpans_wf: "wf_gomap m \<Longrightarrow> wf_gomap (dropSpans s m)"
  using wf_gomap_get [of m "''record''"]
  by (auto simp: dropSpans_def split: option.splits gv.splits)

lemma has_type_unique: "has_type t m \<Longrightarrow> has_type t' m \<longleftrightarrow> t' = t"
  by (auto simp: has_type_def)

text \<open>The dispatch on the type of the item, one equation per branch of the source.\<close>

lemma enhanceByType_cases:
  "has_type ''function'' m \<Longrightarrow> enhanceByType s m = Ret (enhanceFunctionLog s m)"
  "has_type ''platform.runtimeDone'' m \<Longrightarrow> enhanceByType s m = Ret (Some (dropSpans s m))"
  "has_type ''platform.report'' m \<Longrightarrow> has_metrics m \<Longrightarrow>
     \<exists>line. enhanceByType s m = Ret (Some (map_put ''message'' (VString line) m))"
  "has_type ''platform.report'' m \<Longrightarrow> \<not> has_metrics m \<Longrightarrow> enhanceByType s m = Panic FailedTypeAssertion"
  "\<not> has_type ''function'' m \<Longrightarrow> \<not> has_type ''platform.runtimeDone'' m \<Longrightarrow>
     \<not> has_type ''platform.report'' m \<Longrightarrow> enhanceByType s m = Ret (Some m)"
  using createCWLogLine_panic [of m] createCWLogLine_ret [of m]
  by (auto simp: enhanceByType_def has_type_def split: option.splits gv.splits)

lemma enhanceByType_ret_iff:
  "is_ret (enhanceByType s m) \<longleftrightarrow> (has_type ''platform.report'' m \<longrightarrow> has_metrics m)"
  by (cases "has_type ''function'' m"; cases "has_type ''platform.runtimeDone'' m";
      cases "has_type ''platform.report'' m"; cases "has_metrics m")
     (use enhanceByType_cases [of m s] has_type_unique [of _ m] in \<open>auto simp: is_ret_iff\<close>)

lemma enhanceByType_wf:
  assumes "wf_gomap m" and "enhanceByType s m = Ret i"
  shows "wf_item i"
  using assms enhanceByType_cases [of m s]
  by (cases "has_type ''function'' m"; cases "has_type ''platform.runtimeDone'' m";
      cases "has_type ''platform.report'' m"; cases "has_metrics m")
     (auto simp: enhanceFunctionLog_wf dropSpans_wf)

lemma enhanceByType_not_Hang: "enhanceByType s m \<noteq> Hang"
  using enhanceByType_cases [of m s]
  by (cases "has_type ''function'' m"; cases "has_type ''platform.runtimeDone'' m";
      cases "has_type ''platform.report'' m"; cases "has_metrics m") auto

lemma with_metadata_type [simp]: "wf_gomap m \<Longrightarrow> has_type t (with_metadata x s n m) = has_type t m"
  by (simp add: has_type_def with_metadata_get)

lemma with_metadata_metrics [simp]: "wf_gomap m \<Longrightarrow> has_metrics (with_metadata x s n m) = has_metrics m"
  by (simp add: has_metrics_def with_metadata_get)

lemma enhanceItem_eq:
  "enhanceItem x s (Some m) w =
     (enhanceByType s (with_metadata x s (w_tick w) m), (tick w)\<lparr>isColdStart := False\<rparr>)"
  by (simp add: enhanceItem_def addMetadata_eq)

lemma enhanceItem_ret_iff: "wf_item i \<Longrightarrow> is_ret (fst (enhanceItem x s i w)) \<longleftrightarrow> safe_item i"
  by (cases i) (auto simp: enhanceItem_eq enhanceByType_ret_iff, simp add: enhanceItem_def)

lemma enhanceItem_wf: "wf_item i \<Longrightarrow> enhanceItem x s i w = (Ret i', w') \<Longrightarrow> wf_item i'"
  by (cases i) (auto simp: enhanceItem_eq intro: enhanceByType_wf [OF with_metadata_wf], simp add: enhanceItem_def)

lemma enhanceItem_not_Hang: "fst (enhanceItem x s i w) \<noteq> Hang"
  by (cases i) (auto simp: enhanceItem_eq enhanceByType_not_Hang, simp add: enhanceItem_def)

section \<open>The loop\<close>

lemma enhanceLogs_Cons_Ret:
  "enhanceItem x s i w = (Ret i', w1) \<Longrightarrow> enhanceLogs x s (i # is) w =
     (case enhanceLogs x s is w1 of
        (Ret is', w2) \<Rightarrow> (Ret (i' # is'), w2) | (Panic p, w2) \<Rightarrow> (Panic p, w2) | (Hang, w2) \<Rightarrow> (Hang, w2))"
  by (simp add: bindA_def returnA_def split: prod.splits outcome.splits)

lemma enhanceLogs_ret_iff: "wf_body msg \<Longrightarrow> is_ret (fst (enhanceLogs x s msg w)) \<longleftrightarrow> list_all safe_item msg"
proof (induction msg arbitrary: w)
  case (Cons i msg)
  obtain r w1 where item: "enhanceItem x s i w = (r, w1)" by (metis prod.exhaust)
  then have safe: "is_ret r \<longleftrightarrow> safe_item i" using Cons.prems enhanceItem_ret_iff [of i x s w] by simp
  show ?case
  proof (cases r)
    case (Ret i')
    with item safe show ?thesis
      using Cons.IH [of w1] Cons.prems
      by (subst enhanceLogs_Cons_Ret) (auto split: prod.splits outcome.splits)
  qed (use item safe in \<open>simp_all\<close>)
qed simp

lemma enhanceLogs_wf: "wf_body msg \<Longrightarrow> enhanceLogs x s msg w = (Ret msg', w') \<Longrightarrow>
    wf_body msg' \<and> length msg' = length msg"
proof (induction msg arbitrary: w msg')
  case (Cons i msg)
  from Cons.prems(2) obtain i' w1 where item: "enhanceItem x s i w = (Ret i', w1)"
    by (auto elim: bindA_RetE)
  with Cons.prems obtain is' where "enhanceLogs x s msg w1 = (Ret is', w')" "msg' = i' # is'"
    by (subst (asm) enhanceLogs_Cons_Ret) (auto split: prod.splits outcome.splits)
  with Cons item show ?case using enhanceItem_wf [of i x s w i' w1] by auto
qed simp

lemma enhanceLogs_not_Hang: "fst (enhanceLogs x s msg w) \<noteq> Hang"
proof (induction msg arbitrary: w)
  case (Cons i msg)
  obtain r w1 where item: "enhanceItem x s i w = (r, w1)" by (metis prod.exhaust)
  show ?case
  proof (cases r)
    case (Ret i')
    with item Cons [of w1] show ?thesis
      by (subst enhanceLogs_Cons_Ret) (auto split: prod.splits outcome.splits)
  next
    case Hang
    with item enhanceItem_not_Hang [of x s i w] show ?thesis by simp
  qed (use item in simp)
qed simp

text \<open>What enhancing changes of the world: the clock is read and the cold start flag is cleared.\<close>

definition same_effects :: "world \<Rightarrow> world \<Rightarrow> bool" where
  "same_effects w w' =
     (w_http w' = w_http w \<and> w_puts w' = w_puts w \<and> w_kms w' = w_kms w \<and> w_slept w' = w_slept w
      \<and> decryptedSumoHttpEndpoint w' = decryptedSumoHttpEndpoint w
      \<and> kmsEndpointCacheTime w' = kmsEndpointCacheTime w)"

lemma same_effects_refl [simp]: "same_effects w w"
  by (simp add: same_effects_def)

lemma same_effects_trans: "same_effects w w' \<Longrightarrow> same_effects w' w'' \<Longrightarrow> same_effects w w''"
  by (simp add: same_effects_def)

lemma enhanceItem_effects: "same_effects w (snd (enhanceItem x s i w))"
  by (cases i) (simp_all add: enhanceItem_eq same_effects_def, simp_all add: enhanceItem_def)

lemma enhanceLogs_effects: "same_effects w (snd (enhanceLogs x s msg w))"
proof (induction msg arbitrary: w)
  case (Cons i msg)
  obtain r w1 where item: "enhanceItem x s i w = (r, w1)" by (metis prod.exhaust)
  then have w1: "same_effects w w1" using enhanceItem_effects [of w x s i] by simp
  show ?case
  proof (cases r)
    case (Ret i')
    have "same_effects w1 (snd (enhanceLogs x s msg w1))" by (rule Cons)
    with w1 have "same_effects w (snd (enhanceLogs x s msg w1))" by (rule same_effects_trans)
    with item Ret show ?thesis
      by (subst enhanceLogs_Cons_Ret) (auto split: prod.splits outcome.splits)
  qed (use item w1 in simp_all)
qed simp

section \<open>Fields of an enhanced item\<close>

text \<open>
  The relation between an item and its enhanced form when JSON logs are enhanced: the metadata is
  there, the fields the code does not name are the same, the record changes for the types
  \<open>function\<close> and \<open>platform.runtimeDone\<close> only, and a \<open>function\<close> or \<open>platform.report\<close> item has a message.
\<close>

definition touched_keys :: "string list" where
  "touched_keys = [''message'', ''record''] @ metadata_keys"

text \<open>
  The message of a function log: the text of its record without surrounding space, as a map when it is a
  JSON object. With \<open>EnhanceJsonLogs\<close> off that message is all that is left of the item.
\<close>

definition log_text :: "gomap \<Rightarrow> string" where
  "log_text m = TrimSpace (case map_get m ''record'' of Some (VString t) \<Rightarrow> t | _ \<Rightarrow> [])"

definition log_message :: "gomap \<Rightarrow> gv" where
  "log_message m = (case ParseJson (log_text m) of Inl err \<Rightarrow> VString (log_text m) | Inr json \<Rightarrow> gv_of_map json)"

definition bare_log :: "gomap \<Rightarrow> gomap option" where
  "bare_log m = (case ParseJson (log_text m) of Inl err \<Rightarrow> Some [(''message'', VString (log_text m))] | Inr json \<Rightarrow> json)"

definition enhanced_map :: "ext \<Rightarrow> sumoLogicClient \<Rightarrow> gomap \<Rightarrow> gomap \<Rightarrow> bool" where
  "enhanced_map x s m m' \<longleftrightarrow>
     map_get m' ''logGroup'' = Some (VString (''/aws/lambda/'' @ FunctionName (config s)))
     \<and> (\<exists>n. map_get m' ''logStream'' = Some (VString (stream_at x s n)))
     \<and> map_get m' ''IsColdStart'' = Some (VBool False)
     \<and> map_get m' ''LayerVersion'' = Some (VString (SumoLogicExtensionLayerVersionSuffix x))
     \<and> (\<forall>k. k \<notin> set touched_keys \<longrightarrow> map_get m' k = map_get m k)
     \<and> (\<not> has_type ''function'' m \<longrightarrow> \<not> has_type ''platform.runtimeDone'' m \<longrightarrow>
          map_get m' ''record'' = map_get m ''record'')
     \<and> (has_type ''function'' m \<longrightarrow> map_get m' ''message'' = Some (log_message m))
     \<and> (has_type ''platform.report'' m \<longrightarrow> map_get m' ''message'' \<noteq> None)"

definition enhanced :: "ext \<Rightarrow> sumoLogicClient \<Rightarrow> gomap option \<Rightarrow> gomap option \<Rightarrow> bool" where
  "enhanced x s i i' \<longleftrightarrow>
     (\<exists>m. i = Some m \<and>
        (if has_type ''function'' m \<and> \<not> EnhanceJsonLogs (config s) then i' = bare_log m
         else \<exists>m'. i' = Some m' \<and> enhanced_map x s m m'))"

lemma with_metadata_enhanced:
  assumes "wf_gomap m"
    and "\<And>k. k \<notin> {''message'', ''record''} \<Longrightarrow> map_get m' k = map_get (with_metadata x s n m) k"
    and "\<not> has_type ''function'' m \<Longrightarrow> \<not> has_type ''platform.runtimeDone'' m \<Longrightarrow>
           map_get m' ''record'' = map_get m ''record''"
    and "has_type ''function'' m \<Longrightarrow> map_get m' ''message'' = Some (log_message m)"
    and "has_type ''platform.report'' m \<Longrightarrow> map_get m' ''message'' \<noteq> None"
  shows "enhanced_map x s m m'"
  unfolding enhanced_map_def
  using assms by (auto simp: touched_keys_def metadata_keys_def with_metadata_get getLogGroup_def)

lemma enhanceFunctionLog_get:
  assumes "wf_gomap m" and "EnhanceJsonLogs (config s)"
  shows "\<exists>m'. enhanceFunctionLog s m = Some m' \<and> map_get m' ''message'' = Some (log_message m)
     \<and> (\<forall>k. k \<notin> {''message'', ''record''} \<longrightarrow> map_get m' k = map_get m k)"
proof -
  define base where
    "base = (case map_get m ''record'' of Some (VString t) \<Rightarrow> map_del ''record'' m | _ \<Rightarrow> m)"
  have "wf_gomap base"
    using assms by (simp add: base_def split: option.splits gv.splits)
  moreover have "map_get base k = map_get m k" if "k \<noteq> ''record''" for k
    using that by (simp add: base_def split: option.splits gv.splits)
  moreover have "enhanceFunctionLog s m = Some (map_put ''message'' (log_message m) base)"
    using assms(2) by (auto simp: enhanceFunctionLog_def base_def [symmetric] log_message_def log_text_def Let_def
        simp del: map_put.simps split: sum.splits)
  ultimately show ?thesis by auto
qed

lemma enhanceFunctionLog_bare: "\<not> EnhanceJsonLogs (config s) \<Longrightarrow> enhanceFunctionLog s m = bare_log m"
  by (simp add: enhanceFunctionLog_def bare_log_def log_text_def Let_def split: sum.splits)

lemma log_metadata:
  assumes "wf_gomap m"
  shows "bare_log (with_metadata x s n m) = bare_log m" and "log_message (with_metadata x s n m) = log_message m"
proof -
  have same: "log_text (with_metadata x s n m) = log_text m" using assms by (simp add: log_text_def with_metadata_get)
  show "bare_log (with_metadata x s n m) = bare_log m" "log_message (with_metadata x s n m) = log_message m"
    unfolding bare_log_def log_message_def same by (rule refl)+
qed

lemma enhanceItem_enhanced:
  assumes m: "wf_gomap m" and ret: "enhanceItem x s (Some m) w = (Ret i', w')"
  shows "enhanced x s (Some m) i'"
proof -
  let ?m = "with_metadata x s (w_tick w) m"
  have by_type: "enhanceByType s ?m = Ret i'" using ret by (simp add: enhanceItem_eq)
  consider (bare) "has_type ''function'' m" "\<not> EnhanceJsonLogs (config s)"
    | (fn) "has_type ''function'' m" "EnhanceJsonLogs (config s)" | (rtd) "has_type ''platform.runtimeDone'' m"
    | (report) "has_type ''platform.report'' m" | (other) "\<not> has_type ''function'' m"
        "\<not> has_type ''platform.runtimeDone'' m" "\<not> has_type ''platform.report'' m" by blast
  then show ?thesis
  proof cases
    case bare
    then have "i' = bare_log ?m" using by_type m enhanceByType_cases(1) [of ?m s] enhanceFunctionLog_bare by simp
    with bare log_metadata(1) [OF m] show ?thesis by (simp add: enhanced_def)
  next
    case fn
    then have "enhanceFunctionLog s ?m = i'" using by_type m enhanceByType_cases(1) [of ?m s] by simp
    moreover obtain m' where "enhanceFunctionLog s ?m = Some m'" "map_get m' ''message'' = Some (log_message m)"
      "\<forall>k. k \<notin> {''message'', ''record''} \<longrightarrow> map_get m' k = map_get ?m k"
      using enhanceFunctionLog_get [OF with_metadata_wf [OF m, of x s "w_tick w"] fn(2)] log_metadata(2) [OF m] by auto
    moreover from this have "enhanced_map x s m m'"
      using fn has_type_unique [OF fn(1)] by (intro with_metadata_enhanced [OF m]) auto
    ultimately show ?thesis using fn by (auto simp: enhanced_def)
  next
    case rtd
    then have i': "i' = Some (dropSpans s ?m)" using by_type m enhanceByType_cases(2) [of ?m s] by simp
    have "map_get (dropSpans s ?m) k = map_get ?m k" if "k \<noteq> ''record''" for k
      using that m by (simp add: dropSpans_def split: option.splits gv.splits)
    moreover have "\<not> has_type ''function'' m" "\<not> has_type ''platform.report'' m" using has_type_unique [OF rtd] by simp_all
    ultimately have "enhanced_map x s m (dropSpans s ?m)" using rtd by (intro with_metadata_enhanced [OF m]) simp_all
    with i' \<open>\<not> has_type ''function'' m\<close> show ?thesis by (simp add: enhanced_def)
  next
    case report
    then have "has_metrics ?m"
      using by_type m enhanceByType_cases(4) [of ?m s] by auto
    then obtain line where i': "i' = Some (map_put ''message'' (VString line) ?m)"
      using by_type report m enhanceByType_cases(3) [of ?m s] by auto
    have other: "\<not> has_type ''function'' m" "\<not> has_type ''platform.runtimeDone'' m" using has_type_unique [OF report] by simp_all
    then have "enhanced_map x s m (map_put ''message'' (VString line) ?m)"
      using m by (auto intro!: with_metadata_enhanced [OF m] simp: with_metadata_get simp del: map_put.simps)
    with i' other show ?thesis by (simp add: enhanced_def del: map_put.simps)
  next
    case other
    then have "i' = Some ?m" using by_type m enhanceByType_cases(5) [of ?m s] by simp
    moreover have "enhanced_map x s m ?m"
      using other m by (auto intro!: with_metadata_enhanced [OF m] simp: with_metadata_get)
    ultimately show ?thesis using other by (simp add: enhanced_def)
  qed
qed

section \<open>Properties\<close>

text \<open>
  C25. On a payload that was decoded from JSON, \<open>enhanceLogs\<close> returns exactly when no element is
  \<open>null\<close> and every \<open>platform.report\<close> has an object under \<open>record.metrics\<close>; otherwise it panics. It
  never blocks.
\<close>

theorem enhanceLogs_returns_iff:
  "case transformBytesToArrayOfMap rawmsg of
     Inl err \<Rightarrow> True
   | Inr msg \<Rightarrow>
       is_ret (fst (enhanceLogs x s msg w)) = list_all safe_item msg \<and> fst (enhanceLogs x s msg w) \<noteq> Hang"
  by (simp add: enhanceLogs_ret_iff transform_wf enhanceLogs_not_Hang split: sum.splits)

text \<open>
  C24. What \<open>enhanceLogs\<close> makes of each item of a payload, in order. With \<open>EnhanceJsonLogs\<close> off a \<open>function\<close> log
  becomes its message alone: the JSON object of its record, or a map with nothing but its trimmed text.
  Every other item, and every item with the setting on, carries the log group, the log stream, the layer version and
  \<open>IsColdStart\<close>, which is always false, keeps the fields the code does not name, keeps its record unless it is a
  \<open>function\<close> or \<open>platform.runtimeDone\<close> item, and has a message if it is a \<open>function\<close> log (the same message
  as above) or a \<open>platform.report\<close>.
\<close>

theorem enhanceLogs_fields:
  assumes "transformBytesToArrayOfMap rawmsg = Inr msg" and "enhanceLogs x s msg w = (Ret msg', w')"
  shows "list_all2 (enhanced x s) msg msg'"
  using transform_wf [OF assms(1)] assms(2)
proof (induction msg arbitrary: w msg')
  case (Cons i msg)
  from Cons.prems(2) obtain i' w1 where item: "enhanceItem x s i w = (Ret i', w1)"
    by (auto elim: bindA_RetE)
  with Cons.prems obtain rest where "enhanceLogs x s msg w1 = (Ret rest, w')" "msg' = i' # rest"
    by (subst (asm) enhanceLogs_Cons_Ret) (auto split: prod.splits outcome.splits)
  moreover have "enhanced x s i i'"
    using item Cons.prems(1)
    by (cases i) (auto intro: enhanceItem_enhanced, simp add: enhanceItem_def)
  ultimately show ?case using Cons by auto
qed simp

text \<open>The payload with one function log, as the Telemetry API delivers it, and its enhanced form.\<close>

definition sample_payload :: bytes where
  "sample_payload = ''[{\"type\":\"function\",\"record\":\"hi\"}]''"

definition sample_enhanced :: gomap where
  "sample_enhanced =
     [(''IsColdStart'', VBool False), (''LayerVersion'', VString ''sumologic-extension-prod:11''),
      (''logGroup'', VString ''/aws/lambda/''), (''logStream'', VString ''2024/05/07/[]sumologic-extension''),
      (''message'', VString ''hi''), (''type'', VString ''function'')]"

lemma sample_payload_parses: "transformBytesToArrayOfMap sample_payload = Inr [Some sample_item]"
  by code_simp

lemma sample_payload_enhances:
  "enhanceLogs sample_ext sample_client [Some sample_item] sample_world =
     (Ret [Some sample_enhanced], sample_world\<lparr>w_tick := 1, isColdStart := False\<rparr>)"
  by code_simp

definition plain_client :: sumoLogicClient where
  "plain_client = NewLogSenderClient (sample_cfg\<lparr>EnhanceJsonLogs := False\<rparr>)"

lemma sample_payload_plain:
  "enhanceLogs sample_ext plain_client [Some sample_item] sample_world =
     (Ret [Some [(''message'', VString ''hi'')]], sample_world\<lparr>w_tick := 1, isColdStart := False\<rparr>)"
  by code_simp

theorem enhanceLogs_fields_witness:
  "list_all2 (enhanced sample_ext sample_client) [Some sample_item] [Some sample_enhanced]
   \<and> list_all2 (enhanced sample_ext plain_client) [Some sample_item] [Some [(''message'', VString ''hi'')]]"
  using enhanceLogs_fields [OF sample_payload_parses sample_payload_enhances]
    enhanceLogs_fields [OF sample_payload_parses sample_payload_plain] by blast

text \<open>
  After a payload decoded from JSON has been enhanced, \<open>createChunks\<close> has no error: every item
  marshals, so no item is dropped on the way to the chunks.
\<close>

theorem createChunks_no_error:
  assumes "transformBytesToArrayOfMap rawmsg = Inr msg" and "enhanceLogs x s msg w = (Ret msg', w')"
  shows "snd (createChunks s msg') = None
    \<and> length (concat (map nonempty_lines (fst (createChunks s msg')))) = length msg"
  using enhanceLogs_wf [OF transform_wf [OF assms(1)] assms(2)]
  by (simp add: createChunks_result marshalled_wf_length)

theorem createChunks_no_error_witness:
  "snd (createChunks sample_client [Some sample_enhanced]) = None
   \<and> length (concat (map nonempty_lines (fst (createChunks sample_client [Some sample_enhanced])))) = 1"
  using createChunks_no_error [OF sample_payload_parses sample_payload_enhances] by simp

end
