(* ===== verification/Posting.thy ===== *)
theory Posting
  imports Enhance
begin

text \<open>
  Correctness of one post (\<open>makeRequest\<close>, \<open>failoverHandler\<close>, \<open>postToSumo\<close>) and of the endpoint behind it
  (\<open>getHttpEndpoint\<close>). The retry loop is an instance of the contract \<open>retried\<close>; its invariant says
  what every attempt adds to the log of HTTP exchanges.
\<close>

section \<open>What a call adds to the world\<close>

definition new_http :: "world \<Rightarrow> world \<Rightarrow> (request \<times> (error + response)) list" where
  "new_http w w' = drop (length (w_http w)) (w_http w')"

definition new_puts :: "world \<Rightarrow> world \<Rightarrow> (s3_put \<times> error option) list" where
  "new_puts w w' = drop (length (w_puts w)) (w_puts w')"

text \<open>
  A request is settled when the code does not send it again: an answer with 200, with 302, or with any
  status from 500 on, by which the server did not take the data.
\<close>

definition settled :: "error + response \<Rightarrow> bool" where
  "settled r = (\<not> needsRetry r)"

definition posted :: "world \<Rightarrow> world \<Rightarrow> bool" where
  "posted w w' = (new_http w w' \<noteq> [] \<and> settled (snd (last (new_http w w'))))"

definition stored :: "world \<Rightarrow> world \<Rightarrow> bool" where
  "stored w w' = (new_puts w w' \<noteq> [] \<and> snd (last (new_puts w w')) = None)"

definition is_post :: "bytes \<Rightarrow> request \<times> (error + response) \<Rightarrow> bool" where
  "is_post b p = (rq_method (fst p) = ''POST'' \<and> rq_body (fst p) = b
     \<and> header_Get (rq_header (fst p)) ''Content-Encoding'' = ''gzip'')"

definition is_put :: "sumoLogicClient \<Rightarrow> bytes \<Rightarrow> s3_put \<times> error option \<Rightarrow> bool" where
  "is_put s b p = (put_bucket (fst p) = S3BucketName (config s) \<and> put_body (fst p) = b)"

text \<open>The logs only grow, and the shadowed package variable is never written.\<close>

definition extends :: "world \<Rightarrow> world \<Rightarrow> bool" where
  "extends w w' = ((\<exists>h. w_http w' = w_http w @ h) \<and> (\<exists>p. w_puts w' = w_puts w @ p)
     \<and> (\<exists>k. w_kms w' = w_kms w @ k) \<and> (\<exists>d. w_slept w' = w_slept w @ d)
     \<and> decryptedSumoHttpEndpoint w' = decryptedSumoHttpEndpoint w)"

lemma extends_refl [simp]: "extends w w"
  by (simp add: extends_def)

lemma extends_trans: "extends w w' \<Longrightarrow> extends w' w'' \<Longrightarrow> extends w w''"
  by (auto simp: extends_def)

lemma extends_tick [simp]: "extends w (tick w)"
  by (simp add: extends_def)

lemma same_effects_extends: "same_effects w w' \<Longrightarrow> extends w w'"
  by (simp add: same_effects_def extends_def)

lemma new_http_refl [simp]: "new_http w w = []" "new_puts w w = []"
  by (simp_all add: new_http_def new_puts_def)

lemma new_http_append: "w_http w' = w_http w @ h \<Longrightarrow> new_http w w' = h"
  by (simp add: new_http_def)

lemma new_puts_append: "w_puts w' = w_puts w @ p \<Longrightarrow> new_puts w w' = p"
  by (simp add: new_puts_def)

lemma new_trans:
  assumes "extends w w'" and "extends w' w''"
  shows "new_http w w'' = new_http w w' @ new_http w' w''"
    and "new_puts w w'' = new_puts w w' @ new_puts w' w''"
  using assms by (auto simp: extends_def new_http_def new_puts_def)

section \<open>The endpoint\<close>

lemma refreshEndpoint_effects:
  "refreshEndpoint x s w = (r, w') \<Longrightarrow>
     w_http w' = w_http w \<and> w_puts w' = w_puts w \<and> w_slept w' = w_slept w
     \<and> decryptedSumoHttpEndpoint w' = decryptedSumoHttpEndpoint w
     \<and> (\<exists>k. w_kms w' = w_kms w @ k \<and> length k \<le> 1 \<and> (case r of Inr _ \<Rightarrow> length k = 1 | Inl _ \<Rightarrow> True))"
  by (auto simp: refreshEndpoint_def DecodeData_def now_def split: option.splits sum.splits)

lemma getHttpEndpoint_effects:
  "getHttpEndpoint x s w = (r, w') \<Longrightarrow>
     w_http w' = w_http w \<and> w_puts w' = w_puts w \<and> w_slept w' = w_slept w
     \<and> decryptedSumoHttpEndpoint w' = decryptedSumoHttpEndpoint w \<and> (\<exists>k. w_kms w' = w_kms w @ k)"
  by (auto simp: getHttpEndpoint_def now_def split: if_splits dest!: refreshEndpoint_effects)

lemma getHttpEndpoint_extends: "getHttpEndpoint x s w = (r, w') \<Longrightarrow> extends w w'"
  by (auto simp: extends_def dest!: getHttpEndpoint_effects)

section \<open>One request\<close>

lemma sumo_headers_encoding: "header_Get (sumo_headers x s l) ''Content-Encoding'' = ''gzip''"
  by (simp add: sumo_headers_def header_Get_def header_Add_def Let_def)

lemma makeRequest_log:
  assumes "makeRequest x s b w = (r, w')"
  shows "\<exists>h. w_http w' = w_http w @ h \<and> length h \<le> 1 \<and> list_all (is_post b) h
      \<and> (h = [] \<longrightarrow> \<not> settled r) \<and> (h \<noteq> [] \<longrightarrow> snd (last h) = r)
      \<and> w_puts w' = w_puts w \<and> w_slept w' = w_slept w \<and> (\<exists>k. w_kms w' = w_kms w @ k)
      \<and> decryptedSumoHttpEndpoint w' = decryptedSumoHttpEndpoint w"
proof -
  obtain re w1 where ep: "getHttpEndpoint x s w = (re, w1)" by (metis prod.exhaust)
  show ?thesis
    using assms ep getHttpEndpoint_effects [OF ep]
    by (auto simp: makeRequest_def do_http_def Let_def getLogStream_eq is_post_def sumo_headers_encoding
        settled_def needsRetry_def split: sum.splits option.splits)
qed

lemma makeRequest_extends: "makeRequest x s b w = (r, w') \<Longrightarrow> extends w w'"
  by (auto simp: extends_def dest!: makeRequest_log)

section \<open>The retry loop of postToSumo\<close>

text \<open>After the first request and \<open>n\<close> attempts: at most one exchange each, and one sleep per attempt.\<close>

definition post_log :: "sumoLogicClient \<Rightarrow> bytes \<Rightarrow> world \<Rightarrow> nat \<Rightarrow> world \<Rightarrow> bool" where
  "post_log s b w n w' =
     (extends w w' \<and> length (new_http w w') \<le> Suc n \<and> list_all (is_post b) (new_http w w')
      \<and> w_puts w' = w_puts w \<and> w_slept w' = w_slept w @ replicate n (RetrySleepTime (config s)))"

lemma sleep_simps [simp]:
  "w_http (sleep d w) = w_http w" "w_puts (sleep d w) = w_puts w" "w_kms (sleep d w) = w_kms w"
  "w_slept (sleep d w) = w_slept w @ [d]"
  "decryptedSumoHttpEndpoint (sleep d w) = decryptedSumoHttpEndpoint w"
  by (simp_all add: sleep_def)

lemma postAttempt_log:
  assumes "postAttempt x s b attempt w = ((cont, err), w')"
  shows "\<exists>h r. w_http w' = w_http w @ h \<and> length h \<le> 1 \<and> list_all (is_post b) h
      \<and> (h = [] \<longrightarrow> \<not> settled r) \<and> (h \<noteq> [] \<longrightarrow> snd (last h) = r)
      \<and> w_puts w' = w_puts w \<and> w_slept w' = w_slept w @ [RetrySleepTime (config s)]
      \<and> extends w w'
      \<and> (err = None \<longleftrightarrow> settled r) \<and> (err \<noteq> None \<longrightarrow> cont = (attempt < MaxRetryAttempts (config s)))"
proof -
  obtain r where req: "makeRequest x s b (sleep (RetrySleepTime (config s)) w) = (r, w')"
    using assms by (auto simp: postAttempt_def split: prod.splits sum.splits if_splits)
  have "(err = None \<longleftrightarrow> settled r) \<and> (err \<noteq> None \<longrightarrow> cont = (attempt < MaxRetryAttempts (config s)))"
    using assms req by (auto simp: postAttempt_def settled_def needsRetry_def retryable_def
        split: sum.splits if_splits)
  moreover have "extends (sleep (RetrySleepTime (config s)) w) w'" by (rule makeRequest_extends [OF req])
  ultimately show ?thesis using makeRequest_log [OF req] by (auto simp: extends_def)
qed

interpretation post: retried "postAttempt x s b" "post_log s b" posted "MaxRetryAttempts (config s)" for x s b
proof
  fix w n w' attempt r w''
  assume inv: "post_log s b w n w'" and call: "postAttempt x s b attempt w' = (r, w'')"
  obtain cont err where "r = (cont, err)" by fastforce
  with call inv show "post_log s b w (Suc n) w''"
    using new_trans(1) [of w w' w''] extends_trans [of w w' w'']
    by (auto simp: post_log_def new_http_append replicate_append_same dest!: postAttempt_log)
next
  fix w n w' attempt cont w''
  assume inv: "post_log s b w n w'" and call: "postAttempt x s b attempt w' = ((cont, None), w'')"
  then show "posted w w''"
    using postAttempt_log [OF call] new_trans(1) [of w w' w'']
    by (auto simp: post_log_def posted_def new_http_append)
next
  fix w n w' attempt cont e w''
  assume inv: "post_log s b w n w'" and bad: "\<not> posted w w'"
    and call: "postAttempt x s b attempt w' = ((cont, Some e), w'')"
  then show "cont = (attempt < MaxRetryAttempts (config s)) \<and> \<not> posted w w''"
    using postAttempt_log [OF call] new_trans(1) [of w w' w'']
    by (auto simp: post_log_def posted_def new_http_append last_append split: if_splits)
qed

section \<open>The failover\<close>

lemma failoverHandler_log:
  assumes "failoverHandler x s b w = (err, w')" and "EnableFailover (config s)"
  shows "\<exists>p. w_puts w' = w_puts w @ p \<and> length p \<le> 1 \<and> list_all (is_put s b) p \<and> w_http w' = w_http w
      \<and> w_slept w' = w_slept w \<and> extends w w' \<and> (err = None \<longleftrightarrow> p \<noteq> [] \<and> snd (last p) = None)"
  using assms
  by (auto simp: failoverHandler_def getS3KeyName_def UploadToS3_def is_put_def now_def Let_def extends_def
      split: sum.splits option.splits)

section \<open>One post\<close>

text \<open>
  The loop asks to go on while the attempt is below \<open>MaxRetryAttempts\<close>, so the first retry happens
  whatever that limit is.
\<close>

definition retry_budget :: "sumoLogicClient \<Rightarrow> nat" where
  "retry_budget s = nat (min (NumRetry (config s)) (max (MaxRetryAttempts (config s)) 1))"

text \<open>
  The effects of one post whose string compresses to \<open>b\<close>: up to \<open>n\<close> retries, each after one sleep; all
  exchanges post \<open>b\<close>; an upload of \<open>b\<close> only when no exchange was settled; and the result.
\<close>

definition post_effects ::
  "sumoLogicClient \<Rightarrow> bytes \<Rightarrow> nat \<Rightarrow> world \<Rightarrow> error option \<Rightarrow> world \<Rightarrow> bool" where
  "post_effects s b n w err w' \<longleftrightarrow>
     extends w w' \<and> length (new_http w w') \<le> Suc n \<and> list_all (is_post b) (new_http w w')
     \<and> w_slept w' = w_slept w @ replicate n (RetrySleepTime (config s))
     \<and> length (new_puts w w') \<le> (if EnableFailover (config s) \<and> \<not> posted w w' then 1 else 0)
     \<and> list_all (is_put s b) (new_puts w w')
     \<and> (err = None \<longleftrightarrow> posted w w' \<or> stored w w' \<or> \<not> EnableFailover (config s))"

lemma post_log_effects:
  "post_log s b w n w' \<Longrightarrow> posted w w' \<or> \<not> EnableFailover (config s) \<Longrightarrow> post_effects s b n w None w'"
  by (auto simp: post_log_def post_effects_def new_puts_append)

lemma post_log_failover:
  assumes "post_log s b w n w1" and "\<not> posted w w1" and "EnableFailover (config s)"
    and "failoverHandler x s b w1 = (err, w')"
  shows "post_effects s b n w err w'"
proof -
  obtain p where p: "w_puts w' = w_puts w1 @ p" "length p \<le> 1" "list_all (is_put s b) p"
    "w_http w' = w_http w1" "w_slept w' = w_slept w1" "extends w1 w'"
    "err = None \<longleftrightarrow> p \<noteq> [] \<and> snd (last p) = None"
    using failoverHandler_log [OF assms(4,3)] by blast
  have "new_http w w' = new_http w w1" "new_puts w w' = p"
    using p(1,4) assms(1) by (simp_all add: new_http_def new_puts_append post_log_def)
  with p assms(1-3) show ?thesis
    by (auto simp: post_log_def post_effects_def posted_def stored_def intro: extends_trans)
qed

lemma makeRequest_post_log:
  assumes "makeRequest x s b w = (r, w1)"
  shows "post_log s b w 0 w1" and "posted w w1 \<longleftrightarrow> \<not> needsRetry r"
proof -
  obtain h where h: "w_http w1 = w_http w @ h" "length h \<le> 1" "list_all (is_post b) h"
    "h = [] \<longrightarrow> \<not> settled r" "h \<noteq> [] \<longrightarrow> snd (last h) = r" "w_puts w1 = w_puts w" "w_slept w1 = w_slept w"
    using makeRequest_log [OF assms] by blast
  then have "new_http w w1 = h" by (simp add: new_http_append)
  with h makeRequest_extends [OF assms] show "post_log s b w 0 w1" and "posted w w1 \<longleftrightarrow> \<not> needsRetry r"
    by (auto simp: post_log_def posted_def settled_def)
qed

lemma postToSumo_effects:
  assumes comp: "Compress x str = Inr b" and post: "postToSumo x s str w = (err, w')"
  shows "\<exists>n \<le> retry_budget s. post_effects s b n w err w'"
proof -
  obtain r w1 where req: "makeRequest x s b w = (r, w1)" by (metis prod.exhaust)
  note first = makeRequest_post_log [OF req]
  show ?thesis
  proof (cases "needsRetry r")
    case False
    then have "err = None" "w' = w1" using comp post req by (simp_all add: postToSumo_def)
    with first False show ?thesis by (auto intro: post_log_effects)
  next
    case True
    obtain e w2 where loop: "Retry (postAttempt x s b) (NumRetry (config s)) w1 = (e, w2)"
      by (metis prod.exhaust)
    obtain k where inv: "post_log s b w k w2" and e: "e = None \<longleftrightarrow> posted w w2"
      and k: "int k \<le> max 0 (min (NumRetry (config s)) (max (MaxRetryAttempts (config s)) 1))"
      using post.Retry_inv [OF first(1) _ loop] first(2) True by auto
    have "k \<le> retry_budget s" using k by (simp add: retry_budget_def)
    moreover have "post_effects s b k w err w'"
    proof (cases "posted w w2 \<or> \<not> EnableFailover (config s)")
      case True
      then have "err = None" "w' = w2"
        using e comp post req loop \<open>needsRetry r\<close>
        by (auto simp: postToSumo_def split: option.splits)
      with inv True show ?thesis by (auto intro: post_log_effects)
    next
      case False
      then have "failoverHandler x s b w2 = (err, w')"
        using e comp post req loop \<open>needsRetry r\<close>
        by (auto simp: postToSumo_def split: option.splits prod.splits)
      with inv False show ?thesis by (auto intro: post_log_failover)
    qed
    ultimately show ?thesis by blast
  qed
qed

lemma postToSumo_extends: "extends w (snd (postToSumo x s str w))"
proof (cases "Compress x str")
  case (Inr b)
  then show ?thesis
    using postToSumo_effects [OF Inr prod.collapse [symmetric], of s w]
    by (auto simp: post_effects_def)
qed (simp add: postToSumo_def)

lemma settled_iff: "settled r \<longleftrightarrow> (case r of Inl _ \<Rightarrow> False | Inr rs \<Rightarrow> StatusCode rs = 200 \<or> StatusCode rs = 302 \<or> 500 \<le> StatusCode rs)"
  by (auto simp: settled_def needsRetry_def retryable_def split: sum.splits)

section \<open>The cache of the endpoint\<close>

definition clock_monotone :: "ext \<Rightarrow> bool" where
  "clock_monotone x = (\<forall>n. t_nanos (time_Now x n) \<le> t_nanos (time_Now x (Suc n)))"

definition cache_stale :: "ext \<Rightarrow> world \<Rightarrow> bool" where
  "cache_stale x w = (kmsEndpointCacheTime w \<le> t_nanos (time_Now x (w_tick w)))"

lemma refreshEndpoint_stale:
  assumes "clock_monotone x" and "cache_stale x w" and "refreshEndpoint x s w = (r, w')"
  shows "cache_stale x w'"
proof -
  have step: "t_nanos (time_Now x n) \<le> t_nanos (time_Now x (Suc n))" for n
    using assms(1) by (simp add: clock_monotone_def)
  have "kmsEndpointCacheTime w \<le> t_nanos (time_Now x (Suc (w_tick w)))"
    and "kmsEndpointCacheTime w \<le> t_nanos (time_Now x (Suc (Suc (w_tick w))))"
    using assms(2) step [of "w_tick w"] step [of "Suc (w_tick w)"] unfolding cache_stale_def by linarith+
  with assms(3) step show ?thesis
    by (auto simp: cache_stale_def refreshEndpoint_def DecodeData_def now_def split: option.splits sum.splits)
qed

section \<open>Properties\<close>

text \<open>
  C13. One call of \<open>postToSumo\<close> sends at most one request and then at most \<open>NumRetry\<close> retries, of which
  \<open>MaxRetryAttempts\<close> bounds the number too. It sleeps \<open>RetrySleepTime\<close> before each retry; every request
  is a POST of the same gzip body; at most one object is uploaded, with that body, and only when
  no request was settled (answered by 200, 302 or a status from 500 on) and failover is on. A string that does not compress sends nothing.
\<close>

theorem postToSumo_bounded:
  "case Compress x str of
     Inl err \<Rightarrow> postToSumo x s str w = (Some (ErrCompress err), w)
   | Inr b \<Rightarrow>
       (let w' = snd (postToSumo x s str w)
        in length (new_http w w') \<le> 1 + retry_budget s \<and> list_all (is_post b) (new_http w w')
           \<and> (\<exists>n. n \<le> retry_budget s \<and> length (new_http w w') \<le> 1 + n
                \<and> w_slept w' = w_slept w @ replicate n (RetrySleepTime (config s)))
           \<and> length (new_puts w w') \<le> (if EnableFailover (config s) \<and> \<not> posted w w' then 1 else 0)
           \<and> list_all (is_put s b) (new_puts w w'))"
proof (cases "Compress x str")
  case (Inr b)
  from postToSumo_effects [OF Inr prod.collapse [symmetric], of s w]
  show ?thesis unfolding post_effects_def Let_def Inr sum.case by fastforce
qed (simp add: postToSumo_def)

text \<open>
  C14. The result of \<open>postToSumo\<close>: with a string that compresses there is no error exactly when the last
  request was settled (200, 302 or any status from 500 on), or the body was stored in S3, or
  failover is off. After a status from 500 on, and without failover after any failure, an undelivered string is dropped
  without an error.
\<close>

theorem postToSumo_result:
  "case Compress x str of
     Inl err \<Rightarrow> fst (postToSumo x s str w) = Some (ErrCompress err)
   | Inr b \<Rightarrow>
       (let w' = snd (postToSumo x s str w)
        in fst (postToSumo x s str w) = None \<longleftrightarrow> posted w w' \<or> stored w w' \<or> EnableFailover (config s) = False)"
proof (cases "Compress x str")
  case (Inr b)
  from postToSumo_effects [OF Inr prod.collapse [symmetric], of s w]
  show ?thesis unfolding post_effects_def Let_def Inr sum.case by blast
qed (simp add: postToSumo_def)

text \<open>
  C40. The cache of the decrypted endpoint is never used. With a clock that does not run backwards
  and a cache time in the past, as it is initially, every call of \<open>getHttpEndpoint\<close> with a KMS key
  refreshes the endpoint, whatever \<open>KmsCacheSeconds\<close> is; the cache time stays in the past, and an
  endpoint is returned only after a new decryption. The package variable keeps its initial value.
\<close>

theorem kms_cache_never_used:
  assumes "clock_monotone x" and "cache_stale x w" and "KMSKeyId (config s) \<noteq> []"
    and "getHttpEndpoint x s w = (r, w')"
  shows "(r, w') = refreshEndpoint x s (tick (tick w)) \<and> cache_stale x w'
    \<and> (case r of Inr _ \<Rightarrow> length (w_kms w') = Suc (length (w_kms w)) | Inl _ \<Rightarrow> True)
    \<and> decryptedSumoHttpEndpoint w' = decryptedSumoHttpEndpoint w"
proof -
  have step: "t_nanos (time_Now x n) \<le> t_nanos (time_Now x (Suc n))" for n
    using assms(1) by (simp add: clock_monotone_def)
  have stale: "kmsEndpointCacheTime w \<le> t_nanos (time_Now x (w_tick w))"
    "kmsEndpointCacheTime w \<le> t_nanos (time_Now x (Suc (w_tick w)))"
    "kmsEndpointCacheTime w \<le> t_nanos (time_Now x (Suc (Suc (w_tick w))))"
    using assms(2) step [of "w_tick w"] step [of "Suc (w_tick w)"] unfolding cache_stale_def by linarith+
  then have call: "(r, w') = refreshEndpoint x s (tick (tick w))"
    using assms(3,4) by (auto simp: getHttpEndpoint_def now_def)
  have "cache_stale x (tick (tick w))" using stale by (simp add: cache_stale_def)
  with assms(1) call have "cache_stale x w'" by (metis refreshEndpoint_stale)
  with call refreshEndpoint_effects [OF call [symmetric]] show ?thesis by (auto split: sum.splits)
qed

definition sample_kms_client :: sumoLogicClient where
  "sample_kms_client = NewLogSenderClient (sample_cfg\<lparr>KMSKeyId := ''key'', SumoHTTPEndpoint := ''aGk=''\<rparr>)"

definition sample_kms_input :: kms_input where
  "sample_kms_input =
     \<lparr>CiphertextBlob = ''hi'', KeyId = ''key'', EncryptionContext = [(''LambdaFunctionName'', [])]\<rparr>"

definition sample_kms_world :: world where
  "sample_kms_world = sample_world\<lparr>w_tick := 5, w_kms := [sample_kms_input], kmsEndpointCacheTime := 4\<rparr>"

lemma sample_kms_call:
  "getHttpEndpoint sample_ext sample_kms_client sample_world = (Inr ''https://collector'', sample_kms_world)"
  by code_simp

theorem kms_cache_never_used_witness:
  "cache_stale sample_ext sample_kms_world \<and> length (w_kms sample_kms_world) = Suc (length (w_kms sample_world))"
proof -
  have "clock_monotone sample_ext" by (simp add: clock_monotone_def sample_ext_def sample_time_def)
  moreover have "cache_stale sample_ext sample_world" by code_simp
  moreover have "KMSKeyId (config sample_kms_client) \<noteq> []" by code_simp
  ultimately show ?thesis using kms_cache_never_used [OF _ _ _ sample_kms_call] by simp
qed

end
