(* ===== verification/Sending.thy ===== *)
theory Sending
  imports Posting
begin

text \<open>
  Correctness of the three operations of \<open>LogSender\<close>. The loops over payloads are shown equal to one
  pass of \<open>enhanceLogs\<close> over all decoded items; from there the lemmas on chunks and on one post
  give what reaches the server, what reaches S3 and which errors are reported.
\<close>

section \<open>Gathering the payloads\<close>

definition items_of :: "bytes \<Rightarrow> responseBody" where
  "items_of raw = (case transformBytesToArrayOfMap raw of Inl _ \<Rightarrow> [] | Inr msg \<Rightarrow> msg)"

definition malformed :: "bytes \<Rightarrow> bool" where
  "malformed raw = (case transformBytesToArrayOfMap raw of Inl _ \<Rightarrow> True | Inr _ \<Rightarrow> False)"

abbreviation all_items :: "bytes list \<Rightarrow> responseBody" where
  "all_items msgs \<equiv> concat (map items_of msgs)"

abbreviation bad_payloads :: "bytes list \<Rightarrow> nat" where
  "bad_payloads msgs \<equiv> length (filter malformed msgs)"

lemma items_of_wf: "wf_body (items_of raw)"
  by (simp add: items_of_def transform_wf split: sum.splits)

lemma all_items_wf: "wf_body (all_items msgs)"
  by (induction msgs) (simp_all add: items_of_wf)

lemma enhanceLogs_Nil_eq: "enhanceLogs x s [] = returnA []"
  by (simp add: fun_eq_iff returnA_def)

lemma enhanceLogs_Cons_eq:
  "enhanceLogs x s (i # is) =
     bindA (enhanceItem x s i) (\<lambda>i'. bindA (enhanceLogs x s is) (\<lambda>is'. returnA (i' # is')))"
  by (simp add: fun_eq_iff)

lemma enhanceLogs_append:
  "enhanceLogs x s (is @ js) =
     bindA (enhanceLogs x s is) (\<lambda>is'. bindA (enhanceLogs x s js) (\<lambda>js'. returnA (is' @ js')))"
proof (induction "is")
  case Nil
  have "bindA m returnA = m" for m :: "(world, responseBody) action"
    by (rule ext) (simp add: bindA_def returnA_def split: prod.splits outcome.splits)
  then show ?case by (simp add: enhanceLogs_Nil_eq)
next
  case (Cons i items)
  then show ?case by (simp add: enhanceLogs_Cons_eq bindA_assoc del: enhanceLogs.simps)
qed

lemma gatherPayload_eq:
  "gatherPayload x s msgs e p =
     bindA (enhanceLogs x s (all_items msgs)) (\<lambda>items. returnA (e + bad_payloads msgs, p @ items))"
proof (induction msgs arbitrary: e p)
  case Nil
  then show ?case by (simp add: fun_eq_iff enhanceLogs_Nil_eq returnA_def [symmetric] del: enhanceLogs.simps)
next
  case (Cons raw msgs)
  show ?case
  proof (cases "transformBytesToArrayOfMap raw")
    case (Inl err)
    then show ?thesis by (simp add: fun_eq_iff Cons items_of_def malformed_def)
  next
    case (Inr msg)
    then have "gatherPayload x s (raw # msgs) e p =
        bindA (enhanceLogs x s msg) (\<lambda>msg. gatherPayload x s msgs e (p @ msg))"
      by (cases "msg = []") (simp_all add: fun_eq_iff enhanceLogs_Nil_eq del: enhanceLogs.simps)
    with Inr show ?thesis
      by (simp add: Cons items_of_def malformed_def enhanceLogs_append bindA_assoc del: enhanceLogs.simps)
  qed
qed

definition unmarshalled :: "responseBody \<Rightarrow> nat" where
  "unmarshalled items = length (filter (\<lambda>i. marshal_map i = None) items)"

lemma marshalled_append: "marshalled (is @ js) = marshalled is @ marshalled js"
  by (induction "is") (auto simp: map_filter_marshal_Cons List.map_filter_simps split: option.splits)

lemma unmarshalled_wf: "wf_body items \<Longrightarrow> unmarshalled items = 0"
proof (induction items)
  case (Cons i items)
  then have "\<exists>b. marshal_map i = Some b"
    using marshal_map_wf by (cases i) (auto simp: marshal_map_def [of None])
  with Cons show ?case by (auto simp: unmarshalled_def)
qed (simp add: unmarshalled_def)

lemma flushItems_eq: "flushItems items e p = (e + unmarshalled items, p @ framed (marshalled items))"
  by (induction items arbitrary: e p)
     (auto simp: unmarshalled_def map_filter_marshal_Cons List.map_filter_simps split: option.splits)

lemma flushPayload_eq:
  "flushPayload x s msgs e p =
     bindA (enhanceLogs x s (all_items msgs))
       (\<lambda>items. returnA (e + bad_payloads msgs + unmarshalled items, p @ framed (marshalled items)))"
proof (induction msgs arbitrary: e p)
  case Nil
  then show ?case
    by (simp add: fun_eq_iff enhanceLogs_Nil_eq returnA_def [symmetric] unmarshalled_def List.map_filter_simps
        del: enhanceLogs.simps)
next
  case (Cons raw msgs)
  show ?case
  proof (cases "transformBytesToArrayOfMap raw")
    case (Inl err)
    then show ?thesis by (simp add: fun_eq_iff Cons items_of_def malformed_def)
  next
    case (Inr msg)
    then have "flushPayload x s (raw # msgs) e p =
        bindA (enhanceLogs x s msg)
          (\<lambda>msg. flushPayload x s msgs (e + unmarshalled msg) (p @ framed (marshalled msg)))"
      by (cases "msg = []")
         (simp_all add: fun_eq_iff enhanceLogs_Nil_eq flushItems_eq unmarshalled_def List.map_filter_simps
           del: enhanceLogs.simps)
    with Inr show ?thesis
      by (simp add: Cons items_of_def malformed_def enhanceLogs_append bindA_assoc marshalled_append
          unmarshalled_def framed_def ac_simps del: enhanceLogs.simps)
  qed
qed

section \<open>Posting the chunks\<close>

text \<open>The results of the posts, one per chunk and in order, and the final state.\<close>

fun post_results :: "ext \<Rightarrow> sumoLogicClient \<Rightarrow> string list \<Rightarrow> world \<Rightarrow> error option list \<times> world" where
  "post_results x s [] w = ([], w)"
| "post_results x s (c # cs) w =
     (case postToSumo x s c w of
        (r, w1) \<Rightarrow> (case post_results x s cs w1 of (rs, w2) \<Rightarrow> (r # rs, w2)))"

definition failures :: "error option list \<Rightarrow> nat" where
  "failures rs = length (filter (\<lambda>r. r \<noteq> None) rs)"

lemma postChunks_eq:
  "postChunks x s cs e w = (case post_results x s cs w of (rs, w') \<Rightarrow> (e + failures rs, w'))"
  by (induction cs arbitrary: e w) (auto simp: failures_def split: prod.splits option.splits)

lemma post_results_length: "post_results x s cs w = (rs, w') \<Longrightarrow> length rs = length cs"
  by (induction cs arbitrary: w rs) (auto split: prod.splits)

lemma post_results_extends: "post_results x s cs w = (rs, w') \<Longrightarrow> extends w w'"
proof (induction cs arbitrary: w rs)
  case (Cons c cs)
  obtain r w1 where post: "postToSumo x s c w = (r, w1)" by (metis prod.exhaust)
  with Cons.prems obtain rs' where "post_results x s cs w1 = (rs', w')" by (auto split: prod.splits)
  with Cons.IH postToSumo_extends [of w x s c] post show ?case by (auto intro: extends_trans)
qed simp

section \<open>Reference pipeline\<close>

text \<open>
  What sending a list of payloads comes to: enhance every decoded item, cut the result into chunks,
  post the chunks in order, and count the malformed payloads and the failed posts.
\<close>

definition send_pipeline :: "ext \<Rightarrow> sumoLogicClient \<Rightarrow> bytes list \<Rightarrow> (world, nat) action" where
  "send_pipeline x s msgs =
     bindA (enhanceLogs x s (all_items msgs))
       (\<lambda>items w1. case post_results x s (fst (createChunks s items)) w1 of
          (rs, w2) \<Rightarrow> (Ret (bad_payloads msgs + failures rs), w2))"

lemma createChunks_wf: "wf_body items \<Longrightarrow> snd (createChunks s items) = None"
  by (simp add: createChunks_result marshalled_wf_length)

lemma createChunks_enhanced:
  "enhanceLogs x s (all_items msgs) w = (Ret items, w') \<Longrightarrow> \<exists>chunks. createChunks s items = (chunks, None)"
  using enhanceLogs_wf [OF all_items_wf] createChunks_wf by (metis prod.collapse)

lemma SendAllLogs_eq:
  "msgs \<noteq> [] \<Longrightarrow> SendAllLogs x s msgs =
     bindA (send_pipeline x s msgs) (\<lambda>n. returnA (if n > 0 then Some (ErrSendAllPost n) else None))"
proof (rule ext)
  fix w assume "msgs \<noteq> []"
  obtain r w1 where enh: "enhanceLogs x s (all_items msgs) w = (r, w1)" by (metis prod.exhaust)
  show "SendAllLogs x s msgs w =
      bindA (send_pipeline x s msgs) (\<lambda>n. returnA (if n > 0 then Some (ErrSendAllPost n) else None)) w"
  proof (cases r)
    case (Ret items)
    then obtain chunks where "createChunks s items = (chunks, None)"
      using enh createChunks_enhanced by blast
    with Ret enh \<open>msgs \<noteq> []\<close> show ?thesis
      by (simp add: SendAllLogs_def send_pipeline_def gatherPayload_eq bindA_def returnA_def postChunks_eq
          split: prod.splits)
  qed (use enh \<open>msgs \<noteq> []\<close> in \<open>simp_all add: SendAllLogs_def send_pipeline_def gatherPayload_eq bindA_def\<close>)
qed

lemma send_pipeline_ret_iff:
  "is_ret (fst (send_pipeline x s msgs w)) \<longleftrightarrow> list_all safe_item (all_items msgs)"
  using enhanceLogs_ret_iff [OF all_items_wf, of x s msgs w]
  by (cases "enhanceLogs x s (all_items msgs) w"; cases "fst (enhanceLogs x s (all_items msgs) w)")
     (auto simp: send_pipeline_def bindA_def split: prod.splits)

lemma send_pipelineE:
  assumes "send_pipeline x s msgs w = (Ret n, w')"
  obtains items w1 chunks rs where "enhanceLogs x s (all_items msgs) w = (Ret items, w1)"
    and "createChunks s items = (chunks, None)" and "post_results x s chunks w1 = (rs, w')"
    and "n = bad_payloads msgs + failures rs" and "same_effects w w1" and "extends w1 w'"
proof -
  from assms obtain items w1 where enh: "enhanceLogs x s (all_items msgs) w = (Ret items, w1)"
    unfolding send_pipeline_def by (auto elim: bindA_RetE)
  moreover obtain chunks where chunks: "createChunks s items = (chunks, None)"
    using createChunks_enhanced enh by blast
  moreover from assms enh chunks obtain rs where rs: "post_results x s chunks w1 = (rs, w')"
    "n = bad_payloads msgs + failures rs"
    by (auto simp: send_pipeline_def split: prod.splits)
  moreover have "same_effects w w1" using enhanceLogs_effects [of w x s "all_items msgs"] enh by simp
  ultimately show ?thesis using that post_results_extends by blast
qed

lemma SendAllLogs_RetE:
  assumes "SendAllLogs x s msgs w = (Ret r, w')" and "msgs \<noteq> []"
  obtains n where "send_pipeline x s msgs w = (Ret n, w')"
    and "r = (if n > 0 then Some (ErrSendAllPost n) else None)"
  using assms by (auto simp: SendAllLogs_eq returnA_def elim!: bindA_RetE)

lemma SendAllLogs_ret_iff:
  "is_ret (fst (SendAllLogs x s msgs w)) \<longleftrightarrow> list_all safe_item (all_items msgs)"
proof (cases "msgs = []")
  case False
  then show ?thesis
    using send_pipeline_ret_iff [of x s msgs w]
    by (cases "send_pipeline x s msgs w"; cases "fst (send_pipeline x s msgs w)")
       (auto simp: SendAllLogs_eq bindA_def returnA_def)
qed (simp add: SendAllLogs_def)

lemma SendAllLogs_extends: "SendAllLogs x s msgs w = (Ret r, w') \<Longrightarrow> extends w w'"
proof (cases "msgs = []")
  case False
  assume "SendAllLogs x s msgs w = (Ret r, w')"
  then obtain n where "send_pipeline x s msgs w = (Ret n, w')" using SendAllLogs_RetE False by blast
  then show ?thesis by (rule send_pipelineE) (blast intro: extends_trans same_effects_extends)
qed (simp add: SendAllLogs_def)

lemma SendAllLogs_panics:
  assumes "\<not> list_all safe_item (all_items msgs)"
  shows "\<exists>p w'. SendAllLogs x s msgs w = (Panic p, w') \<and> same_effects w w'"
proof -
  have "msgs \<noteq> []" using assms by auto
  obtain r w' where enh: "enhanceLogs x s (all_items msgs) w = (r, w')" by (metis prod.exhaust)
  then have "same_effects w w'" and "\<not> is_ret r" and "r \<noteq> Hang"
    using enhanceLogs_effects [of w x s "all_items msgs"] enhanceLogs_ret_iff [OF all_items_wf, of x s msgs w]
      enhanceLogs_not_Hang [of x s "all_items msgs" w] assms by auto
  then obtain p where "r = Panic p" by (cases r) auto
  with enh \<open>same_effects w w'\<close> \<open>msgs \<noteq> []\<close> show ?thesis
    by (simp add: SendAllLogs_eq send_pipeline_def)
qed

lemma same_effects_new: "same_effects w w1 \<Longrightarrow> new_http w w' = new_http w1 w' \<and> new_puts w w' = new_puts w1 w'"
  by (simp add: same_effects_def new_http_def new_puts_def)

section \<open>Delivery\<close>

text \<open>
  What can have become of a compressed body \<open>b\<close> once a call is over: a request with it was answered by 200 or 302,
  an object with it was uploaded, or a request with it was answered by a status from 500 on.
\<close>

definition answered_by :: "(int \<Rightarrow> bool) \<Rightarrow> bytes \<Rightarrow> world \<Rightarrow> world \<Rightarrow> bool" where
  "answered_by P b w w' =
     list_ex (\<lambda>p. is_post b p \<and> (case snd p of Inl err \<Rightarrow> False | Inr rs \<Rightarrow> P (StatusCode rs))) (new_http w w')"

definition taken :: "bytes \<Rightarrow> world \<Rightarrow> world \<Rightarrow> bool" where
  "taken = answered_by (\<lambda>code. code = 200 \<or> code = 302)"

definition uploaded :: "sumoLogicClient \<Rightarrow> bytes \<Rightarrow> world \<Rightarrow> world \<Rightarrow> bool" where
  "uploaded s b w w' = list_ex (\<lambda>p. is_put s b p \<and> snd p = None) (new_puts w w')"

definition server_failed :: "bytes \<Rightarrow> world \<Rightarrow> world \<Rightarrow> bool" where
  "server_failed = answered_by (\<lambda>code. 500 \<le> code)"

definition disposed :: "sumoLogicClient \<Rightarrow> world \<Rightarrow> world \<Rightarrow> bytes \<Rightarrow> bool" where
  "disposed s w w' b \<longleftrightarrow> taken b w w' \<or> uploaded s b w w' \<or> server_failed b w w'"

lemmas disposed_defs = disposed_def taken_def uploaded_def server_failed_def answered_by_def

definition gzip_works :: "ext \<Rightarrow> bool" where
  "gzip_works x = (\<forall>b. gzip_Write x b = None \<and> gzip_Close x b = None)"

lemma Compress_works: "gzip_works x \<Longrightarrow> Compress x str = Inr (gzip_Output x str)"
  by (simp add: Compress_def gzip_works_def)

lemma Compress_Inr: "Compress x str = Inr b \<Longrightarrow> b = gzip_Output x str"
  by (simp add: Compress_def split: option.splits)

lemma disposed_mono_left: "extends w w1 \<Longrightarrow> extends w1 w' \<Longrightarrow> disposed s w1 w' b \<Longrightarrow> disposed s w w' b"
  by (auto simp: disposed_defs new_trans [of w w1 w'] list_ex_iff)

lemma disposed_mono_right: "extends w w1 \<Longrightarrow> extends w1 w' \<Longrightarrow> disposed s w w1 b \<Longrightarrow> disposed s w w' b"
  by (auto simp: disposed_defs new_trans [of w w1 w'] list_ex_iff)

lemma postToSumo_disposed:
  assumes "postToSumo x s str w = (None, w')" and "EnableFailover (config s)"
  shows "disposed s w w' (gzip_Output x str)"
proof (cases "Compress x str")
  case (Inr b)
  from postToSumo_effects [OF Inr assms(1)] obtain n where "post_effects s b n w None w'" by blast
  then have "posted w w' \<or> stored w w'" "list_all (is_post b) (new_http w w')"
    "list_all (is_put s b) (new_puts w w')"
    using assms(2) by (auto simp: post_effects_def)
  then have "(\<exists>p \<in> set (new_http w w'). is_post b p \<and> settled (snd p)) \<or> (\<exists>p \<in> set (new_puts w w'). is_put s b p \<and> snd p = None)"
    unfolding posted_def stored_def list_all_iff by (metis last_in_set)
  then have "disposed s w w' b"
    by (fastforce simp: disposed_defs list_ex_iff settled_iff split: sum.splits)
  with Compress_Inr [OF Inr] show ?thesis by simp
qed (use assms in \<open>simp add: postToSumo_def\<close>)

lemma post_results_disposed:
  "post_results x s cs w = (rs, w') \<Longrightarrow> EnableFailover (config s) \<Longrightarrow> failures rs = 0 \<Longrightarrow>
     list_all (disposed s w w') (map (gzip_Output x) cs)"
proof (induction cs arbitrary: w rs)
  case (Cons c cs)
  obtain r w1 where post: "postToSumo x s c w = (r, w1)" by (metis prod.exhaust)
  with Cons.prems obtain rs' where rest: "post_results x s cs w1 = (rs', w')" and "r = None" "failures rs' = 0"
    by (auto simp: failures_def split: prod.splits if_splits)
  have ext: "extends w w1" "extends w1 w'"
    using postToSumo_extends [of w x s c] post post_results_extends [OF rest] by auto
  have "disposed s w w1 (gzip_Output x c)"
    using postToSumo_disposed post \<open>r = None\<close> Cons.prems(2) by blast
  moreover have "list_all (disposed s w1 w') (map (gzip_Output x) cs)"
    using Cons.IH [OF rest Cons.prems(2) \<open>failures rs' = 0\<close>] .
  ultimately show ?case
    using ext by (auto simp: list_all_iff intro: disposed_mono_left disposed_mono_right)
qed simp

lemma post_results_no_failover:
  "post_results x s cs w = (rs, w') \<Longrightarrow> gzip_works x \<Longrightarrow> \<not> EnableFailover (config s) \<Longrightarrow> failures rs = 0"
proof (induction cs arbitrary: w rs)
  case (Cons c cs)
  obtain r w1 where post: "postToSumo x s c w = (r, w1)" by (metis prod.exhaust)
  then have "r = None"
    using postToSumo_effects [OF Compress_works [OF Cons.prems(2)] post] Cons.prems(3)
    by (auto simp: post_effects_def)
  with Cons post show ?case by (auto simp: failures_def split: prod.splits)
qed (simp add: failures_def)

text \<open>A server whose first answer settles every request, behind an endpoint that needs no decryption.\<close>

definition settling :: "ext \<Rightarrow> sumoLogicClient \<Rightarrow> bool" where
  "settling x s =
     (gzip_works x \<and> (\<forall>n rq. settled (http_Do x n rq)) \<and> KMSKeyId (config s) = []
      \<and> http_NewRequest x ''POST'' (SumoHTTPEndpoint (config s)) = None)"

lemma postToSumo_settling:
  assumes "settling x s"
  shows "\<exists>w' p. postToSumo x s c w = (None, w') \<and> new_http w w' = [p] \<and> is_post (gzip_Output x c) p
      \<and> rq_url (fst p) = SumoHTTPEndpoint (config s) \<and> new_puts w w' = []"
  using assms
  by (auto simp: postToSumo_def Compress_works settling_def makeRequest_def getHttpEndpoint_def getLogStream_eq
      do_http_def Let_def settled_def new_http_def new_puts_def is_post_def sumo_headers_encoding)

lemma post_results_settling:
  "settling x s \<Longrightarrow> post_results x s cs w = (rs, w') \<Longrightarrow>
     failures rs = 0 \<and> map (\<lambda>p. rq_body (fst p)) (new_http w w') = map (gzip_Output x) cs
     \<and> list_all (\<lambda>p. rq_url (fst p) = SumoHTTPEndpoint (config s)) (new_http w w') \<and> new_puts w w' = []"
proof (induction cs arbitrary: w rs)
  case (Cons c cs)
  obtain w1 p where post: "postToSumo x s c w = (None, w1)" "new_http w w1 = [p]"
    "is_post (gzip_Output x c) p" "rq_url (fst p) = SumoHTTPEndpoint (config s)" "new_puts w w1 = []"
    using postToSumo_settling [OF Cons.prems(1)] by metis
  with Cons.prems obtain rs' where rest: "post_results x s cs w1 = (rs', w')" "rs = None # rs'"
    by (auto split: prod.splits)
  have "extends w w1" "extends w1 w'"
    using postToSumo_extends [of w x s c] post(1) post_results_extends [OF rest(1)] by auto
  with Cons.IH [OF Cons.prems(1) rest(1)] post rest(2) show ?case
    by (auto simp: new_trans [of w w1 w'] failures_def is_post_def)
qed (simp add: failures_def)

lemma SendAllLogs_outcome_no_failover:
  assumes "gzip_works x" and "\<not> EnableFailover (config s)" and "SendAllLogs x s msgs w = (Ret r, w')"
  shows "r = (if bad_payloads msgs > 0 then Some (ErrSendAllPost (bad_payloads msgs)) else None)"
proof (cases "msgs = []")
  case False
  obtain n where run: "send_pipeline x s msgs w = (Ret n, w')"
    and r: "r = (if n > 0 then Some (ErrSendAllPost n) else None)"
    by (rule SendAllLogs_RetE [OF assms(3) False])
  from run obtain items w1 chunks rs where "post_results x s chunks w1 = (rs, w')"
    and "n = bad_payloads msgs + failures rs"
    by (rule send_pipelineE)
  with r post_results_no_failover assms(1,2) show ?thesis by simp
qed (use assms in \<open>simp add: SendAllLogs_def\<close>)

lemma SendAllLogs_settling:
  assumes "settling x s" and "msgs \<noteq> []" and "list_all safe_item (all_items msgs)"
  shows "\<exists>w' items chunks.
      SendAllLogs x s msgs w =
        (Ret (if bad_payloads msgs > 0 then Some (ErrSendAllPost (bad_payloads msgs)) else None), w')
    \<and> fst (enhanceLogs x s (all_items msgs) w) = Ret items
    \<and> map (\<lambda>p. rq_body (fst p)) (new_http w w') = map (gzip_Output x) chunks
    \<and> concat (map nonempty_lines chunks) = marshalled items
    \<and> length (marshalled items) = length (all_items msgs) \<and> new_puts w w' = []"
proof -
  obtain n w' where run: "send_pipeline x s msgs w = (Ret n, w')"
    using send_pipeline_ret_iff [of x s msgs w] assms(3) by (metis is_ret_iff prod.collapse)
  then obtain items w1 chunks rs where enh: "enhanceLogs x s (all_items msgs) w = (Ret items, w1)"
    and chunks: "createChunks s items = (chunks, None)" and rs: "post_results x s chunks w1 = (rs, w')"
    and n: "n = bad_payloads msgs + failures rs" and same: "same_effects w w1"
    by (rule send_pipelineE)
  note posted = post_results_settling [OF assms(1) rs]
  have "SendAllLogs x s msgs w =
      (Ret (if bad_payloads msgs > 0 then Some (ErrSendAllPost (bad_payloads msgs)) else None), w')"
    using run n posted assms(2) by (simp add: SendAllLogs_eq returnA_def)
  moreover have "length (marshalled items) = length (all_items msgs)"
    using enhanceLogs_wf [OF all_items_wf enh] by (simp add: marshalled_wf_length)
  moreover have "concat (map nonempty_lines chunks) = marshalled items"
    using createChunks_result(1) [of s items] chunks by simp
  ultimately show ?thesis using enh posted same_effects_new [OF same, of w'] by auto
qed

section \<open>Flushing to S3\<close>

lemma FlushAll_RetE:
  assumes "FlushAll x s msgs w = (Ret r, w')" and "msgs \<noteq> []" and "EnableFailover (config s)" and "gzip_works x"
  obtains items w1 senderr where "enhanceLogs x s (all_items msgs) w = (Ret items, w1)"
    and "failoverHandler x s (gzip_Output x (framed (marshalled items))) w1 = (senderr, w')"
    and "r = (if bad_payloads msgs > 0 \<or> senderr \<noteq> None then Some (ErrFlushAll (bad_payloads msgs) senderr) else None)"
    and "same_effects w w1" and "wf_body items"
proof -
  from assms(1-3) obtain items w1 where enh: "enhanceLogs x s (all_items msgs) w = (Ret items, w1)"
    by (auto simp: FlushAll_def flushPayload_eq elim!: bindA_RetE)
  then have wf: "wf_body items" using enhanceLogs_wf [OF all_items_wf] by blast
  obtain senderr w2 where fo: "failoverHandler x s (gzip_Output x (framed (marshalled items))) w1 = (senderr, w2)"
    by (metis prod.exhaust)
  have "same_effects w w1" using enhanceLogs_effects [of w x s "all_items msgs"] enh by simp
  moreover have "CompressBuffer x (framed (marshalled items)) = Inr (gzip_Output x (framed (marshalled items)))"
    using Compress_works [OF assms(4)] by (simp add: Compress_eq_CompressBuffer)
  with assms(1-3) enh fo wf have "r = (if bad_payloads msgs > 0 \<or> senderr \<noteq> None
      then Some (ErrFlushAll (bad_payloads msgs) senderr) else None)" and "w2 = w'"
    by (auto simp: FlushAll_def flushPayload_eq returnA_def bindA_def unmarshalled_wf)
  ultimately show ?thesis using that enh fo wf by blast
qed

section \<open>Properties\<close>

text \<open>
  C8. \<open>SendAllLogs\<close> on a non-empty list of payloads is the reference pipeline: every decoded item is
  enhanced, the result is cut into chunks, every chunk is posted once and in order, and the error
  counts the malformed payloads and the failed posts. The error branch of \<open>createChunks\<close> is not
  reachable, and the empty list sends nothing.
\<close>

theorem SendAllLogs_is_pipeline:
  "SendAllLogs x s msgs =
     (if msgs = [] then returnA None
      else bindA (send_pipeline x s msgs) (\<lambda>n. returnA (if n > 0 then Some (ErrSendAllPost n) else None)))"
  using SendAllLogs_eq by (auto simp: SendAllLogs_def returnA_def)

text \<open>
  C6. With a server whose answers settle every request, \<open>SendAllLogs\<close> posts everything: for payloads that
  decode and do not panic it returns no error, and the bodies it posts, in order, are the
  compressed chunks whose lines are the enhanced items, one line per item received. Nothing goes to S3. The
  server has then taken the data if it answers by 200 or 302.
\<close>

theorem SendAllLogs_delivers:
  assumes "settling x s" and "msgs \<noteq> []" and "list_all safe_item (all_items msgs)" and "bad_payloads msgs = 0"
  shows "\<exists>w' items chunks. SendAllLogs x s msgs w = (Ret None, w')
    \<and> fst (enhanceLogs x s (all_items msgs) w) = Ret items
    \<and> map (\<lambda>p. rq_body (fst p)) (new_http w w') = map (gzip_Output x) chunks
    \<and> concat (map nonempty_lines chunks) = marshalled items
    \<and> length (marshalled items) = length (all_items msgs) \<and> new_puts w w' = []"
  using SendAllLogs_settling [OF assms(1-3), of w] assms(4) by simp

theorem SendAllLogs_delivers_witness:
  "\<exists>w' items chunks. SendAllLogs sample_ext sample_client [sample_payload] sample_world = (Ret None, w')
    \<and> fst (enhanceLogs sample_ext sample_client (all_items [sample_payload]) sample_world) = Ret items
    \<and> map (\<lambda>p. rq_body (fst p)) (new_http sample_world w') = map (gzip_Output sample_ext) chunks
    \<and> concat (map nonempty_lines chunks) = marshalled items
    \<and> length (marshalled items) = length (all_items [sample_payload]) \<and> new_puts sample_world w' = []"
proof (rule SendAllLogs_delivers)
  show "settling sample_ext sample_client"
    by (simp add: settling_def gzip_works_def sample_ext_def settled_iff)
  show "list_all safe_item (all_items [sample_payload])" by code_simp
  show "bad_payloads [sample_payload] = 0" by code_simp
qed simp

text \<open>A server that rejects every request, and a client with a bucket.\<close>

definition sample_reject_ext :: ext where
  "sample_reject_ext = sample_ext\<lparr>http_Do := (\<lambda>n rq. Inr \<lparr>StatusCode = 429, rs_header = [], rs_body = Inr []\<rparr>)\<rparr>"

definition sample_bucket_client :: sumoLogicClient where
  "sample_bucket_client = NewLogSenderClient (sample_cfg\<lparr>EnableFailover := True, S3BucketName := ''bucket''\<rparr>)"

lemma sample_reject_gzip: "gzip_works sample_reject_ext"
  by (simp add: gzip_works_def sample_reject_ext_def sample_ext_def)

lemma sample_bucket_failover: "EnableFailover (config sample_bucket_client)"
  by (simp add: sample_bucket_client_def NewLogSenderClient_def)

text \<open>
  C7. What a nil error of \<open>SendAllLogs\<close> means with failover on. No payload was malformed, the items were enhanced
  and cut into chunks without a loss, and each chunk was taken by the server (200 or 302), uploaded to
  the bucket, or answered by a status from 500 on. The last kind is lost without an error, since the code neither retries
  nor uploads it; unless the server answers so, nothing is lost.
\<close>

theorem SendAllLogs_nil_error:
  assumes "EnableFailover (config s)" and "msgs \<noteq> []" and "SendAllLogs x s msgs w = (Ret None, w')"
  shows "\<exists>items chunks. fst (enhanceLogs x s (all_items msgs) w) = Ret items \<and> bad_payloads msgs = 0
    \<and> concat (map nonempty_lines chunks) = marshalled items
    \<and> list_all (disposed s w w') (map (gzip_Output x) chunks)"
proof -
  obtain n where run: "send_pipeline x s msgs w = (Ret n, w')" and "n = 0"
    using SendAllLogs_RetE [OF assms(3,2)] by (metis not_gr_zero option.distinct(1))
  from run obtain items w1 chunks rs where enh: "enhanceLogs x s (all_items msgs) w = (Ret items, w1)"
    and chunks: "createChunks s items = (chunks, None)" and rs: "post_results x s chunks w1 = (rs, w')"
    and n: "n = bad_payloads msgs + failures rs" and same: "same_effects w w1" and "extends w1 w'"
    by (rule send_pipelineE)
  have "list_all (disposed s w1 w') (map (gzip_Output x) chunks)"
    using post_results_disposed [OF rs assms(1)] n \<open>n = 0\<close> by simp
  then have "list_all (disposed s w w') (map (gzip_Output x) chunks)"
    using disposed_mono_left same_effects_extends [OF same] \<open>extends w1 w'\<close> by (simp add: list_all_iff)
  moreover have "concat (map nonempty_lines chunks) = marshalled items"
    using createChunks_result(1) [of s items] chunks by simp
  ultimately show ?thesis using enh n \<open>n = 0\<close> by auto
qed

theorem SendAllLogs_nil_error_witness:
  "\<exists>w' items chunks.
     SendAllLogs sample_ext sample_bucket_client [sample_payload] sample_world = (Ret None, w')
     \<and> fst (enhanceLogs sample_ext sample_bucket_client (all_items [sample_payload]) sample_world) = Ret items
     \<and> concat (map nonempty_lines chunks) = marshalled items
     \<and> list_all (disposed sample_bucket_client sample_world w') (map (gzip_Output sample_ext) chunks)"
proof -
  have "fst (SendAllLogs sample_ext sample_bucket_client [sample_payload] sample_world) = Ret None"
    by code_simp
  then obtain w' where
    "SendAllLogs sample_ext sample_bucket_client [sample_payload] sample_world = (Ret None, w')"
    by (metis prod.collapse)
  with SendAllLogs_nil_error [OF sample_bucket_failover _ this] show ?thesis by blast
qed

text \<open>
  Without failover the error of \<open>SendAllLogs\<close> says nothing about the network: whatever the server
  answers, there is an error exactly when a payload was malformed, and it counts those payloads.
\<close>

theorem SendAllLogs_error_without_failover:
  assumes "gzip_works x" and "\<not> EnableFailover (config s)" and "SendAllLogs x s msgs w = (Ret r, w')"
  shows "r = (if bad_payloads msgs > 0 then Some (ErrSendAllPost (bad_payloads msgs)) else None)"
  using assms by (rule SendAllLogs_outcome_no_failover)

theorem SendAllLogs_error_without_failover_witness:
  "fst (SendAllLogs sample_reject_ext sample_client [sample_payload] sample_world) = Ret None"
proof -
  have "list_all safe_item (all_items [sample_payload])" by code_simp
  then have "is_ret (fst (SendAllLogs sample_reject_ext sample_client [sample_payload] sample_world))"
    by (simp only: SendAllLogs_ret_iff)
  then obtain r w' where
    run: "SendAllLogs sample_reject_ext sample_client [sample_payload] sample_world = (Ret r, w')"
    by (metis is_ret_iff prod.collapse)
  have "bad_payloads [sample_payload] = 0" by code_simp
  with SendAllLogs_error_without_failover [OF sample_reject_gzip _ run] run show ?thesis by simp
qed

text \<open>
  C23. \<open>FlushAll\<close> with failover on uploads one object at most and sends no request: when it returns
  without an error the bucket has exactly one new object, the compressed lines of all enhanced
  items, and no payload was malformed.
\<close>

theorem FlushAll_stores_all:
  assumes "EnableFailover (config s)" and "gzip_works x" and "msgs \<noteq> []"
    and "FlushAll x s msgs w = (Ret r, w')"
  shows "\<exists>items. fst (enhanceLogs x s (all_items msgs) w) = Ret items \<and> new_http w w' = []
    \<and> length (new_puts w w') \<le> 1
    \<and> list_all (is_put s (gzip_Output x (framed (marshalled items)))) (new_puts w w')
    \<and> nonempty_lines (framed (marshalled items)) = marshalled items
    \<and> length (marshalled items) = length (all_items msgs)
    \<and> (r = None \<longleftrightarrow> stored w w' \<and> bad_payloads msgs = 0)"
proof -
  obtain items w1 senderr where enh: "enhanceLogs x s (all_items msgs) w = (Ret items, w1)"
    and fo: "failoverHandler x s (gzip_Output x (framed (marshalled items))) w1 = (senderr, w')"
    and r: "r = (if bad_payloads msgs > 0 \<or> senderr \<noteq> None then Some (ErrFlushAll (bad_payloads msgs) senderr) else None)"
    and same: "same_effects w w1" and wf: "wf_body items"
    by (rule FlushAll_RetE [OF assms(4,3,1,2)])
  have "nonempty_lines (framed (marshalled items)) = marshalled items"
    using marshalled_text by (intro nonempty_lines_framed) blast
  moreover have "length (marshalled items) = length (all_items msgs)"
    using enhanceLogs_wf [OF all_items_wf enh] by (simp add: marshalled_wf_length)
  ultimately show ?thesis
    using failoverHandler_log [OF fo assms(1)] enh r same
    by (auto simp: same_effects_def stored_def new_puts_append new_http_def)
qed

theorem FlushAll_stores_all_witness:
  "\<exists>w' items. FlushAll sample_reject_ext sample_bucket_client [sample_payload] sample_world = (Ret None, w')
     \<and> stored sample_world w' \<and> new_http sample_world w' = []
     \<and> list_all (is_put sample_bucket_client (gzip_Output sample_reject_ext (framed (marshalled items))))
          (new_puts sample_world w')"
proof -
  have "fst (FlushAll sample_reject_ext sample_bucket_client [sample_payload] sample_world) = Ret None"
    by code_simp
  then obtain w' where
    "FlushAll sample_reject_ext sample_bucket_client [sample_payload] sample_world = (Ret None, w')"
    by (metis prod.collapse)
  with FlushAll_stores_all [OF sample_bucket_failover sample_reject_gzip _ this] show ?thesis by blast
qed

text \<open>
  \<open>SendLogs\<close> is the pipeline for one payload: an empty payload sends nothing, a malformed one is an
  error without a request, and any other is enhanced, chunked and posted as \<open>SendAllLogs\<close> does it, with
  an error that counts the failed posts.
\<close>

theorem SendLogs_is_pipeline:
  "SendLogs x s raw =
     (case transformBytesToArrayOfMap raw of
        Inl err \<Rightarrow> returnA (if raw = [] then None else Some (ErrSendLogsTransform err))
      | Inr msg \<Rightarrow>
          if raw = [] then returnA None
          else bindA (send_pipeline x s [raw]) (\<lambda>n. returnA (if n > 0 then Some (ErrSendLogsPost n) else None)))"
proof (rule ext)
  fix w
  show "SendLogs x s raw w =
     (case transformBytesToArrayOfMap raw of
        Inl err \<Rightarrow> returnA (if raw = [] then None else Some (ErrSendLogsTransform err))
      | Inr msg \<Rightarrow>
          if raw = [] then returnA None
          else bindA (send_pipeline x s [raw]) (\<lambda>n. returnA (if n > 0 then Some (ErrSendLogsPost n) else None))) w"
  proof (cases "transformBytesToArrayOfMap raw")
    case (Inr msg)
    then have msg: "all_items [raw] = msg" "bad_payloads [raw] = 0" by (simp_all add: items_of_def malformed_def)
    obtain r w1 where enh: "enhanceLogs x s msg w = (r, w1)" by (metis prod.exhaust)
    show ?thesis
    proof (cases r)
      case (Ret items)
      then obtain chunks where "createChunks s items = (chunks, None)"
        using enh createChunks_enhanced [of x s "[raw]" w items w1] msg(1) by auto
      with Ret enh Inr msg show ?thesis
        by (simp add: SendLogs_def send_pipeline_def bindA_def returnA_def postChunks_eq split: prod.splits)
    qed (use enh Inr msg in \<open>simp_all add: SendLogs_def send_pipeline_def bindA_def returnA_def\<close>)
  qed (simp add: SendLogs_def returnA_def)
qed

end
