(* ===== verification/Chan.thy ===== *)
theory Chan
  imports Prelude
begin

text \<open>
  Go channels, as the workers use them: a buffer of fixed capacity, the values of goroutines that
  are parked in a send because the buffer is full, and the closed flag. A receive that frees a
  place in the buffer lets the first parked sender continue. The interface the consumers rely
  on (a queue with the laws of a FIFO) is the locale \<open>fifo\<close>, interpreted on these operations.
\<close>

section \<open>Operations\<close>

record 'a chan =
  ch_cap :: nat
  ch_buf :: "'a list"
  ch_sendq :: "'a list"
  ch_closed :: bool

text \<open>\<open>make(chan T, n)\<close>.\<close>

definition make_chan :: "int \<Rightarrow> 'a chan outcome" where
  "make_chan n =
     (if n < 0 then Panic MakeChanSizeOutOfRange
      else Ret \<lparr>ch_cap = nat n, ch_buf = [], ch_sendq = [], ch_closed = False\<rparr>)"

text \<open>
  A send: it panics on a closed channel, succeeds when the buffer has room, and otherwise the
  goroutine has to wait. \<open>chan_park\<close> leaves its value with the parked senders.
\<close>

datatype send_result = Sent | Full

definition chan_send :: "'a \<Rightarrow> 'a chan \<Rightarrow> send_result outcome \<times> 'a chan" where
  "chan_send v c =
     (if ch_closed c then (Panic SendOnClosedChannel, c)
      else if length (ch_buf c) < ch_cap c then (Ret Sent, c\<lparr>ch_buf := ch_buf c @ [v]\<rparr>)
      else (Ret Full, c))"

definition chan_park :: "'a \<Rightarrow> 'a chan \<Rightarrow> 'a chan" where
  "chan_park v c = c\<lparr>ch_sendq := ch_sendq c @ [v]\<rparr>"

text \<open>
  A receive in a \<open>select\<close> with a \<open>default\<close> case: None is the default case. On a closed and empty
  channel a receive succeeds at once with the zero value.
\<close>

definition chan_recv :: "'a \<Rightarrow> 'a chan \<Rightarrow> ('a \<times> 'a chan) option" where
  "chan_recv zero c =
     (case ch_buf c of
        v # vs \<Rightarrow>
          (case ch_sendq c of
             [] \<Rightarrow> Some (v, c\<lparr>ch_buf := vs\<rparr>)
           | p # ps \<Rightarrow> Some (v, c\<lparr>ch_buf := vs @ [p], ch_sendq := ps\<rparr>))
      | [] \<Rightarrow>
          (case ch_sendq c of
             p # ps \<Rightarrow> Some (p, c\<lparr>ch_sendq := ps\<rparr>)
           | [] \<Rightarrow> if ch_closed c then Some (zero, c) else None))"

text \<open>Closing: every parked sender panics in its own goroutine, so its value is gone.\<close>

definition chan_close :: "'a chan \<Rightarrow> unit outcome \<times> 'a chan" where
  "chan_close c =
     (if ch_closed c then (Panic CloseOfClosedChannel, c)
      else (Ret (), c\<lparr>ch_sendq := [], ch_closed := True\<rparr>))"

abbreviation chan_len :: "'a chan \<Rightarrow> int" where
  "chan_len c \<equiv> int (length (ch_buf c))"

abbreviation chan_cap :: "'a chan \<Rightarrow> int" where
  "chan_cap c \<equiv> int (ch_cap c)"

section \<open>Invariant\<close>

definition contents :: "'a chan \<Rightarrow> 'a list" where
  "contents c = ch_buf c @ ch_sendq c"

definition chan_ok :: "'a chan \<Rightarrow> bool" where
  "chan_ok c =
     (length (ch_buf c) \<le> ch_cap c
      \<and> (ch_sendq c \<noteq> [] \<longrightarrow> length (ch_buf c) = ch_cap c)
      \<and> (ch_closed c \<longrightarrow> ch_sendq c = []))"

abbreviation chan_open :: "'a chan \<Rightarrow> bool" where
  "chan_open c \<equiv> chan_ok c \<and> \<not> ch_closed c"

lemma make_chan_ok: "make_chan n = Ret c \<Longrightarrow> chan_open c \<and> contents c = [] \<and> chan_cap c = n"
  by (auto simp: make_chan_def chan_ok_def contents_def split: if_splits)

lemma chan_send_ok: "chan_ok c \<Longrightarrow> chan_send v c = (r, c') \<Longrightarrow> chan_ok c' \<and> ch_cap c' = ch_cap c \<and> ch_closed c' = ch_closed c"
  by (auto simp: chan_send_def chan_ok_def split: if_splits)

lemma chan_send_Sent:
  "chan_ok c \<Longrightarrow> chan_send v c = (Ret Sent, c') \<Longrightarrow> contents c' = contents c @ [v] \<and> \<not> ch_closed c"
  by (auto simp: chan_send_def contents_def chan_ok_def split: if_splits)

lemma chan_park_ok:
  "chan_open c \<Longrightarrow> chan_send v c = (Ret Full, c') \<Longrightarrow>
     chan_open (chan_park v c') \<and> contents (chan_park v c') = contents c @ [v]"
  by (auto simp: chan_send_def chan_park_def contents_def chan_ok_def split: if_splits)

lemma chan_recv_open:
  assumes "chan_open c"
  shows "(case chan_recv zero c of
            None \<Rightarrow> contents c = []
          | Some (v, c') \<Rightarrow> contents c = v # contents c' \<and> chan_open c' \<and> ch_cap c' = ch_cap c)"
  using assms by (auto simp: chan_recv_def contents_def chan_ok_def split: list.splits)

lemma chan_recv_None: "chan_recv zero c = None \<longleftrightarrow> contents c = [] \<and> \<not> ch_closed c"
  by (auto simp: chan_recv_def contents_def split: list.splits)

lemma chan_close_ok: "chan_ok c \<Longrightarrow> chan_close c = (r, c') \<Longrightarrow> chan_ok c' \<and> ch_closed c' \<and> ch_buf c' = ch_buf c"
  by (auto simp: chan_close_def chan_ok_def split: if_splits)

section \<open>The interface of a queue\<close>

text \<open>
  What a consumer relies on: a receive takes the first element or reports that there is none. A
  loop that receives until there is none then returns all elements in order.
\<close>

locale fifo =
  fixes recv :: "'q \<Rightarrow> ('a \<times> 'q) option"
    and elems :: "'q \<Rightarrow> 'a list"
    and good :: "'q \<Rightarrow> bool"
  assumes recv_none: "good q \<Longrightarrow> recv q = None \<Longrightarrow> elems q = []"
    and recv_some: "good q \<Longrightarrow> recv q = Some (v, q') \<Longrightarrow> elems q = v # elems q' \<and> good q'"
begin

text \<open>A loop with a state: \<open>step\<close> is what the body does with a received value.\<close>

lemma loop_receives_all:
  fixes loop :: "'q \<Rightarrow> 's \<Rightarrow> ('s \<times> 'q) option"
  assumes unfold: "\<And>q s. loop q s = (case recv q of None \<Rightarrow> Some (s, q) | Some (v, q') \<Rightarrow> loop q' (step s v))"
    and "good q"
  shows "\<exists>q'. loop q s = Some (foldl step s (elems q), q') \<and> good q' \<and> elems q' = []"
  using assms(2)
proof (induction "elems q" arbitrary: q s)
  case Nil
  then have "recv q = None" using recv_some by (cases "recv q") fastforce+
  with Nil show ?case by (simp add: unfold [of q])
next
  case (Cons v vs)
  then obtain q' where "recv q = Some (v, q')"
    using recv_none [of q] recv_some [of q] by (cases "recv q") fastforce+
  with Cons recv_some [of q v q'] show ?case by (simp add: unfold [of q])
qed

end

definition open_cap :: "nat \<Rightarrow> 'a chan \<Rightarrow> bool" where
  "open_cap k c = (chan_open c \<and> ch_cap c = k)"

interpretation chan: fifo "chan_recv zero" contents "open_cap k" for zero k
proof
  fix c :: "'a chan" and v c'
  show "open_cap k c \<Longrightarrow> chan_recv zero c = None \<Longrightarrow> contents c = []"
    using chan_recv_open [of c zero] by (simp add: open_cap_def)
  show "open_cap k c \<Longrightarrow> chan_recv zero c = Some (v, c') \<Longrightarrow> contents c = v # contents c' \<and> open_cap k c'"
    using chan_recv_open [of c zero] by (simp add: open_cap_def)
qed

section \<open>Emptied channels and sends into them\<close>

definition emptied :: "'a chan \<Rightarrow> 'a chan" where
  "emptied c = c\<lparr>ch_buf := [], ch_sendq := []\<rparr>"

lemma emptied_unique: "open_cap (ch_cap c) c' \<Longrightarrow> contents c' = [] \<Longrightarrow> \<not> ch_closed c \<Longrightarrow> c' = emptied c"
  by (cases c'; cases c) (simp add: open_cap_def contents_def emptied_def)

lemma emptied_simps [simp]:
  "ch_cap (emptied c) = ch_cap c" "ch_closed (emptied c) = ch_closed c"
  "ch_buf (emptied c) = []" "ch_sendq (emptied c) = []" "contents (emptied c) = []" "chan_ok (emptied c)"
  by (simp_all add: emptied_def contents_def chan_ok_def)

text \<open>
  Blocking sends of a list by the only goroutine that receives: when the buffer is full nobody
  will free a place, so the goroutine waits for ever.
\<close>

fun requeue :: "'a list \<Rightarrow> 'a chan \<Rightarrow> unit outcome \<times> 'a chan" where
  "requeue [] c = (Ret (), c)"
| "requeue (msg # msgs) c =
     (case chan_send msg c of
        (Ret Sent, c') \<Rightarrow> requeue msgs c'
      | (Ret Full, c') \<Rightarrow> (Hang, c')
      | (Panic p, c') \<Rightarrow> (Panic p, c')
      | (Hang, c') \<Rightarrow> (Hang, c'))"

text \<open>Sends in a \<open>select\<close> with a \<open>default\<close> case: a message that finds the buffer full is dropped.\<close>

fun try_requeue :: "'a list \<Rightarrow> 'a chan \<Rightarrow> unit outcome \<times> 'a chan" where
  "try_requeue [] c = (Ret (), c)"
| "try_requeue (msg # msgs) c =
     (case chan_send msg c of
        (Ret Sent, c') \<Rightarrow> try_requeue msgs c'
      | (Ret Full, c') \<Rightarrow> try_requeue msgs c'
      | (Panic p, c') \<Rightarrow> (Panic p, c')
      | (Hang, c') \<Rightarrow> (Hang, c'))"

definition room :: "'a chan \<Rightarrow> nat" where
  "room c = ch_cap c - length (ch_buf c)"

lemma requeue_open:
  "\<not> ch_closed c \<Longrightarrow> requeue msgs c =
     (if length msgs \<le> room c then (Ret (), c\<lparr>ch_buf := ch_buf c @ msgs\<rparr>)
      else (Hang, c\<lparr>ch_buf := ch_buf c @ take (room c) msgs\<rparr>))"
proof (induction msgs arbitrary: c)
  case (Cons v msgs)
  show ?case
  proof (cases "length (ch_buf c) < ch_cap c")
    case True
    then have "room c = Suc (room (c\<lparr>ch_buf := ch_buf c @ [v]\<rparr>))" by (simp add: room_def)
    with True Cons show ?thesis by (simp add: chan_send_def)
  qed (use Cons.prems in \<open>simp add: chan_send_def room_def\<close>)
qed simp

lemma try_requeue_open:
  "\<not> ch_closed c \<Longrightarrow> try_requeue msgs c = (Ret (), c\<lparr>ch_buf := ch_buf c @ take (room c) msgs\<rparr>)"
proof (induction msgs arbitrary: c)
  case (Cons v msgs)
  show ?case
  proof (cases "length (ch_buf c) < ch_cap c")
    case True
    then have "room c = Suc (room (c\<lparr>ch_buf := ch_buf c @ [v]\<rparr>))" by (simp add: room_def)
    with True Cons show ?thesis by (simp add: chan_send_def)
  next
    case False
    then have "room c = 0" by (simp add: room_def)
    with False Cons show ?thesis by (simp add: chan_send_def)
  qed
qed simp

lemma room_emptied [simp]: "room (emptied c) = ch_cap c"
  by (simp add: room_def)

end
