(* ===== verification/Workers.thy ===== *)
theory Workers
  imports Sending Chan
begin

text \<open>
  \<open>workers/producer.go\<close> and \<open>workers/consumer.go\<close>: the HTTP handler that puts payloads into the data
  queue and the consumer that drains it through a \<open>LogSender\<close>. The consumer is written over the
  interface \<open>LogSender\<close> as in the source; the laws it relies on are the locale \<open>log_sender\<close>,
  interpreted on the client of \<open>sumoclient.go\<close>.
\<close>

section \<open>The interface LogSender\<close>

record 'w LogSender =
  send_logs :: "bytes \<Rightarrow> ('w, error option) action"
  send_all_logs :: "bytes list \<Rightarrow> ('w, error option) action"
  flush_all :: "bytes list \<Rightarrow> ('w, error option) action"

definition sumo_sender :: "ext \<Rightarrow> sumoLogicClient \<Rightarrow> world LogSender" where
  "sumo_sender x s = \<lparr>send_logs = SendLogs x s, send_all_logs = SendAllLogs x s, flush_all = FlushAll x s\<rparr>"

section \<open>The producer\<close>

text \<open>
  A request to the local server: the path, the method, and what reading the body gives, the bytes
  read and the error if the reading failed.
\<close>

record http_in =
  in_path :: string
  in_method :: string
  in_body :: bytes
  in_err :: "error option"

datatype reply = Replied int | Blocked

text \<open>
  \<open>logsHandler\<close> of the standard producer. A handler whose send has to wait stays blocked, its payload
  parked on the channel; it replies once a receive takes the payload. An empty reply has status 200.
\<close>

definition logsHandler :: "http_in \<Rightarrow> bytes chan \<Rightarrow> reply outcome \<times> bytes chan" where
  "logsHandler request dataQueue =
     (if in_path request \<noteq> ''/'' then (Ret (Replied 404), dataQueue)
      else if in_method request = ''POST'' then
        (case chan_send (in_body request) dataQueue of
           (Ret Sent, q) \<Rightarrow> (Ret (Replied 200), q)
         | (Ret Full, q) \<Rightarrow> (Ret Blocked, chan_park (in_body request) q)
         | (Panic p, q) \<Rightarrow> (Panic p, q)
         | (Hang, q) \<Rightarrow> (Hang, q))
      else (Ret (Replied 200), dataQueue))"

text \<open>
  The server object and its \<open>Start\<close>. The handler is registered on the default multiplexer and the call
  serves until it fails; every error it returns is a panic of the goroutine, which nothing recovers.
\<close>

record httpServer =
  hs_dataQueue :: "bytes chan"

definition NewTaskProducer :: "bytes chan \<Rightarrow> httpServer" where
  "NewTaskProducer consumerQueue = \<lparr>hs_dataQueue = consumerQueue\<rparr>"

definition receiverIP :: string where
  "receiverIP = ''0.0.0.0''"

definition receiver_port :: int where
  "receiver_port = 4243"

definition serve :: "ext \<Rightarrow> string \<Rightarrow> error option outcome" where
  "serve x addr =
     (case http_ListenAndServe x addr of
        Ret (Some err) \<Rightarrow> Panic (PanicValue ''ListenAndServe'')
      | Ret None \<Rightarrow> Ret None
      | Panic p \<Rightarrow> Panic p
      | Hang \<Rightarrow> Hang)"

definition Start :: "ext \<Rightarrow> error option outcome" where
  "Start x = serve x (receiverIP @ '':'' @ show_int receiver_port)"

section \<open>The consumer\<close>

record 'w sumoConsumer =
  sc_config :: LambdaExtensionConfig
  sc_client :: "'w LogSender"

definition NewTaskConsumer :: "ext \<Rightarrow> LambdaExtensionConfig \<Rightarrow> world sumoConsumer" where
  "NewTaskConsumer x cfg = \<lparr>sc_config = cfg, sc_client = sumo_sender x (NewLogSenderClient cfg)\<rparr>"

text \<open>The state a consumer works on: the outside and the data queue.\<close>

type_synonym 'w qstate = "'w \<times> bytes chan"

definition RuntimeDone :: string where
  "RuntimeDone = ''platform.runtimeDone''"

text \<open>
  The receiving loops. On a closed channel a receive never falls through to the default case, so
  the loop does not end: the result None.
\<close>

definition drain_step :: "bytes list \<times> int \<Rightarrow> bytes \<Rightarrow> bytes list \<times> int" where
  "drain_step s rawmsg =
     (fst s @ [rawmsg], if Contains rawmsg RuntimeDone then 1 else snd s)"

partial_function (option) drain_loop ::
  "bytes chan \<Rightarrow> bytes list \<times> int \<Rightarrow> ((bytes list \<times> int) \<times> bytes chan) option" where
  "drain_loop q s =
     (case chan_recv [] q of
        None \<Rightarrow> Some (s, q)
      | Some (rawmsg, q') \<Rightarrow> drain_loop q' (drain_step s rawmsg))"

partial_function (option) receive_all :: "bytes chan \<Rightarrow> bytes list \<Rightarrow> (bytes list \<times> bytes chan) option" where
  "receive_all q rawMsgArr =
     (case chan_recv [] q of
        None \<Rightarrow> Some (rawMsgArr, q)
      | Some (rawmsg, q') \<Rightarrow> receive_all q' (rawMsgArr @ [rawmsg]))"

text \<open>The error branch shared by the loops: the messages go back to the queue by blocking sends.\<close>

definition putBack :: "bytes list \<Rightarrow> error option \<Rightarrow> ('w qstate, unit) action" where
  "putBack rawMsgArr err st =
     (case err of
        None \<Rightarrow> (Ret (), st)
      | Some e \<Rightarrow> (case requeue rawMsgArr (snd st) of (r, q) \<Rightarrow> (r, (fst st, q))))"

text \<open>A call of the client: it acts on the outside and leaves the queue alone.\<close>

definition outside :: "('w, 'a) action \<Rightarrow> ('w qstate, 'a) action" where
  "outside act st = (case act (fst st) of (r, w) \<Rightarrow> (r, (w, snd st)))"

definition DrainQueue :: "'w sumoConsumer \<Rightarrow> ('w qstate, int) action" where
  "DrainQueue sc st =
     (case drain_loop (snd st) ([], 0) of
        None \<Rightarrow> (Hang, st)
      | Some ((rawMsgArr, runtime_done), q) \<Rightarrow>
          bindA (outside (send_all_logs (sc_client sc) rawMsgArr))
            (\<lambda>err. bindA (putBack rawMsgArr err) (\<lambda>_. returnA runtime_done)) (fst st, q))"

fun drain_times :: "nat \<Rightarrow> 'w sumoConsumer \<Rightarrow> ('w qstate, unit) action" where
  "drain_times 0 sc st = (Ret (), st)"
| "drain_times (Suc n) sc st = bindA (DrainQueue sc) (\<lambda>_. drain_times n sc) st"

text \<open>Integer division of Go: it truncates toward zero and panics for a zero divisor.\<close>

definition go_div :: "int \<Rightarrow> int \<Rightarrow> int outcome" where
  "go_div a b = (if b = 0 then Panic DivideByZero else Ret (sgn a * sgn b * (\<bar>a\<bar> div \<bar>b\<bar>)))"

definition closeQueue :: "('w qstate, unit) action" where
  "closeQueue st = (case chan_close (snd st) of (r, q) \<Rightarrow> (r, (fst st, q)))"

definition FlushDataQueue :: "'w sumoConsumer \<Rightarrow> ('w qstate, unit) action" where
  "FlushDataQueue sc st =
     (if EnableFailover (sc_config sc) then
        (case receive_all (snd st) [] of
           None \<Rightarrow> (Hang, st)
         | Some (rawMsgArr, q) \<Rightarrow>
             bindA (outside (flush_all (sc_client sc) rawMsgArr))
               (\<lambda>err. bindA (putBack rawMsgArr err) (\<lambda>_. closeQueue)) (fst st, q))
      else
        (case go_div (chan_len (snd st)) (MaxConcurrentRequests (sc_config sc)) of
           Ret d \<Rightarrow> drain_times (nat (d + 1)) sc st
         | Panic p \<Rightarrow> (Panic p, st)
         | Hang \<Rightarrow> (Hang, st)))"

text \<open>One task for one message, as the per-message consumer goroutine runs it.\<close>

definition consumeTask :: "'w sumoConsumer \<Rightarrow> bytes \<Rightarrow> ('w qstate, unit) action" where
  "consumeTask sc rawmsg = bindA (outside (send_logs (sc_client sc) rawmsg)) (\<lambda>err. putBack [rawmsg] err)"

section \<open>The contract of a LogSender\<close>

locale log_sender =
  fixes ls :: "'w LogSender"
  assumes send_all_nil: "send_all_logs ls [] w = (Ret None, w)"
    and send_all_no_hang: "fst (send_all_logs ls msgs w) \<noteq> Hang"
    and flush_nil: "flush_all ls [] w = (Ret None, w)"
    and flush_no_hang: "fst (flush_all ls msgs w) \<noteq> Hang"
    and send_no_hang: "fst (send_logs ls msg w) \<noteq> Hang"

lemma bindA_Hang_iff:
  "fst (bindA m f w) = Hang \<longleftrightarrow> fst (m w) = Hang \<or> (\<exists>a w'. m w = (Ret a, w') \<and> fst (f a w') = Hang)"
  by (cases "m w"; cases "fst (m w)") (auto simp: bindA_def)

lemma SendAllLogs_not_Hang: "fst (SendAllLogs x s msgs w) \<noteq> Hang"
  by (cases "msgs = []")
     (auto simp: SendAllLogs_eq send_pipeline_def bindA_Hang_iff enhanceLogs_not_Hang returnA_def
        SendAllLogs_def [of x s "[]"] split: prod.splits)

lemma FlushAll_not_Hang: "fst (FlushAll x s msgs w) \<noteq> Hang"
  by (auto simp: FlushAll_def flushPayload_eq bindA_Hang_iff enhanceLogs_not_Hang returnA_def
      split: prod.splits sum.splits)

lemma SendLogs_not_Hang: "fst (SendLogs x s msg w) \<noteq> Hang"
  by (auto simp: SendLogs_def bindA_Hang_iff enhanceLogs_not_Hang
      split: sum.splits prod.splits option.splits)

interpretation sumo: log_sender "sumo_sender x s" for x s
  by unfold_locales
     (simp_all add: sumo_sender_def SendAllLogs_not_Hang FlushAll_not_Hang SendLogs_not_Hang
       SendAllLogs_def [of x s "[]"] FlushAll_def [of x s "[]"])

end
