(* ===== verification/Workers_Props.thy ===== *)
theory Workers_Props
  imports Workers
begin

text \<open>
  Correctness of the standard producer and consumer: what a drain does with the messages on every
  outcome of the client, when it blocks, what a shutdown flush does, and what the handler
  answers.
\<close>

section \<open>The receiving loops\<close>

definition done_flag :: "bytes list \<Rightarrow> int" where
  "done_flag msgs = (if list_ex (\<lambda>m. Contains m ''platform.runtimeDone'') msgs then 1 else 0)"

lemma foldl_drain_step:
  "foldl drain_step (acc, d) msgs =
     (acc @ msgs, if list_ex (\<lambda>m. Contains m RuntimeDone) msgs then 1 else d)"
  by (induction msgs arbitrary: acc d) (auto simp: drain_step_def)

lemma foldl_snoc: "foldl (\<lambda>acc m. acc @ [m]) acc msgs = acc @ msgs"
  by (induction msgs arbitrary: acc) auto

lemma drain_loop_open:
  assumes "chan_open q"
  shows "drain_loop q ([], 0) = Some ((contents q, done_flag (contents q)), emptied q)"
proof -
  have "open_cap (ch_cap q) q" using assms by (simp add: open_cap_def)
  from chan.loop_receives_all [where loop = drain_loop, OF drain_loop.simps this, of "([], 0)"]
  show ?thesis
    using emptied_unique assms by (auto simp: foldl_drain_step done_flag_def RuntimeDone_def)
qed

lemma receive_all_open:
  assumes "chan_open q"
  shows "receive_all q [] = Some (contents q, emptied q)"
proof -
  have "open_cap (ch_cap q) q" using assms by (simp add: open_cap_def)
  from chan.loop_receives_all [where loop = receive_all, OF receive_all.simps this, of "[]"]
  show ?thesis using emptied_unique assms by (auto simp: foldl_snoc)
qed

text \<open>
  On a closed channel neither loop returns: by fixpoint induction, a loop that returns has reached the
  default case, which a receive from a closed channel never takes.
\<close>

lemma chan_recv_closed: "chan_recv z q = Some (v, q') \<Longrightarrow> ch_closed q' = ch_closed q"
  by (auto simp: chan_recv_def split: list.splits if_splits)

lemma drain_loop_open_only:
  assumes "drain_loop q s = Some r"
  shows "\<not> ch_closed q"
proof (rule drain_loop.raw_induct [of "\<lambda>q _ _. \<not> ch_closed q", OF _ assms])
  fix loop q s r
  assume IH: "\<And>q s r. loop q s = Some r \<Longrightarrow> \<not> ch_closed q"
    and body: "(case chan_recv [] q of None \<Rightarrow> Some (s, q) | Some (rawmsg, q') \<Rightarrow> loop q' (drain_step s rawmsg)) = Some r"
  show "\<not> ch_closed q"
  proof (cases "chan_recv [] q")
    case None
    then show ?thesis by (simp add: chan_recv_None)
  next
    case (Some p)
    then obtain v q' where recv: "chan_recv [] q = Some (v, q')" by (cases p) simp
    with body have "\<not> ch_closed q'" by (intro IH) simp
    with chan_recv_closed [OF recv] show ?thesis by simp
  qed
qed

lemma receive_all_open_only:
  assumes "receive_all q acc = Some r"
  shows "\<not> ch_closed q"
proof (rule receive_all.raw_induct [of "\<lambda>q _ _. \<not> ch_closed q", OF _ assms])
  fix loop q acc r
  assume IH: "\<And>q acc r. loop q acc = Some r \<Longrightarrow> \<not> ch_closed q"
    and body: "(case chan_recv [] q of None \<Rightarrow> Some (acc, q) | Some (rawmsg, q') \<Rightarrow> loop q' (acc @ [rawmsg])) = Some r"
  show "\<not> ch_closed q"
  proof (cases "chan_recv [] q")
    case None
    then show ?thesis by (simp add: chan_recv_None)
  next
    case (Some p)
    then obtain v q' where recv: "chan_recv [] q = Some (v, q')" by (cases p) simp
    with body have "\<not> ch_closed q'" by (intro IH) simp
    with chan_recv_closed [OF recv] show ?thesis by simp
  qed
qed

lemma loops_closed: "ch_closed q \<Longrightarrow> drain_loop q s = None \<and> receive_all q acc = None"
  using drain_loop_open_only receive_all_open_only by (metis not_None_eq)

section \<open>Draining\<close>

definition refilled :: "'a list \<Rightarrow> 'a chan \<Rightarrow> 'a chan" where
  "refilled msgs q = (emptied q)\<lparr>ch_buf := msgs\<rparr>"

lemma refilled_simps [simp]:
  "ch_cap (refilled msgs q) = ch_cap q" "ch_closed (refilled msgs q) = ch_closed q"
  "contents (refilled msgs q) = msgs" "ch_buf (refilled msgs q) = msgs"
  "length msgs \<le> ch_cap q \<Longrightarrow> chan_ok (refilled msgs q)"
  by (simp_all add: refilled_def contents_def chan_ok_def)

lemma putBack_emptied:
  "\<not> ch_closed q \<Longrightarrow> putBack msgs (Some e) (w, emptied q) =
     (if length msgs \<le> ch_cap q then (Ret (), (w, refilled msgs q))
      else (Hang, (w, refilled (take (ch_cap q) msgs) q)))"
  by (simp add: putBack_def requeue_open refilled_def)

lemma putBack_None [simp]: "putBack msgs None st = (Ret (), st)"
  by (simp add: putBack_def)

text \<open>The result of handing the messages of an emptied queue to the client.\<close>

definition after_send :: "bytes list \<Rightarrow> 'a \<Rightarrow> bytes chan \<Rightarrow> error option outcome \<times> 'w \<Rightarrow> 'a outcome \<times> 'w qstate" where
  "after_send msgs res q sent =
     (case sent of
        (Ret None, w) \<Rightarrow> (Ret res, (w, emptied q))
      | (Ret (Some e), w) \<Rightarrow>
          if length msgs \<le> ch_cap q then (Ret res, (w, refilled msgs q))
          else (Hang, (w, refilled (take (ch_cap q) msgs) q))
      | (Panic p, w) \<Rightarrow> (Panic p, (w, emptied q))
      | (Hang, w) \<Rightarrow> (Hang, (w, emptied q)))"

lemma send_putBack:
  assumes "\<not> ch_closed q"
  shows "bindA (outside act) (\<lambda>err. bindA (putBack msgs err) (\<lambda>_. returnA res)) (w, emptied q) =
     after_send msgs res q (act w)"
  using assms
  by (cases "act w"; cases "fst (act w)")
     (auto simp: after_send_def outside_def bindA_def returnA_def putBack_emptied split: option.splits)

lemma DrainQueue_eq:
  "chan_open q \<Longrightarrow> DrainQueue sc (w, q) =
     after_send (contents q) (done_flag (contents q)) q (send_all_logs (sc_client sc) (contents q) w)"
  by (simp add: DrainQueue_def drain_loop_open send_putBack)

context log_sender
begin

text \<open>A drain through a sender that keeps the contract blocks only in the requeue of too many messages.\<close>

lemma DrainQueue_hangs_iff:
  assumes "chan_open q" and "sc_client sc = ls"
  shows "fst (DrainQueue sc (w, q)) = Hang \<longleftrightarrow>
     (\<exists>e. fst (send_all_logs ls (contents q) w) = Ret (Some e)) \<and> ch_cap q < length (contents q)"
  using assms send_all_no_hang [of "contents q" w]
  by (cases "send_all_logs ls (contents q) w"; cases "fst (send_all_logs ls (contents q) w)")
     (auto simp: DrainQueue_eq after_send_def split: option.splits)

lemma DrainQueue_empty:
  assumes "chan_open q" and "contents q = []" and "sc_client sc = ls"
  shows "DrainQueue sc (w, q) = (Ret 0, (w, q))"
proof -
  have "emptied q = q" using assms by (cases q) (simp add: emptied_def contents_def)
  with assms send_all_nil show ?thesis by (simp add: DrainQueue_eq after_send_def done_flag_def)
qed

lemma drain_times_empty:
  "chan_open q \<Longrightarrow> contents q = [] \<Longrightarrow> sc_client sc = ls \<Longrightarrow> drain_times n sc (w, q) = (Ret (), (w, q))"
  by (induction n) (simp_all add: DrainQueue_empty)

text \<open>Repeated drains after one that succeeded change nothing: one call empties the queue.\<close>

lemma drain_times_once:
  assumes "chan_open q" and "sc_client sc = ls" and "send_all_logs ls (contents q) w = (Ret None, w')"
  shows "drain_times (Suc n) sc (w, q) = (Ret (), (w', emptied q))"
proof -
  have "DrainQueue sc (w, q) = (Ret (done_flag (contents q)), (w', emptied q))"
    using assms by (simp add: DrainQueue_eq after_send_def)
  with assms drain_times_empty [of "emptied q" sc n w'] show ?thesis by simp
qed

end

section \<open>Flushing\<close>

definition closed :: "'a chan \<Rightarrow> 'a chan" where
  "closed q = q\<lparr>ch_sendq := [], ch_closed := True\<rparr>"

text \<open>The result of flushing an emptied queue with failover: as for a drain, and then the queue is closed.\<close>

definition after_flush :: "bytes list \<Rightarrow> bytes chan \<Rightarrow> error option outcome \<times> 'w \<Rightarrow> unit outcome \<times> 'w qstate" where
  "after_flush msgs q sent =
     (case sent of
        (Ret None, w) \<Rightarrow> (Ret (), (w, closed (emptied q)))
      | (Ret (Some e), w) \<Rightarrow>
          if length msgs \<le> ch_cap q then (Ret (), (w, closed (refilled msgs q)))
          else (Hang, (w, refilled (take (ch_cap q) msgs) q))
      | (Panic p, w) \<Rightarrow> (Panic p, (w, emptied q))
      | (Hang, w) \<Rightarrow> (Hang, (w, emptied q)))"

lemma closeQueue_open: "\<not> ch_closed q \<Longrightarrow> closeQueue (w, q) = (Ret (), (w, closed q))"
  by (simp add: closeQueue_def chan_close_def closed_def)

lemma FlushDataQueue_failover_eq:
  assumes "chan_open q" and "EnableFailover (sc_config sc)"
  shows "FlushDataQueue sc (w, q) = after_flush (contents q) q (flush_all (sc_client sc) (contents q) w)"
  using assms
  by (cases "flush_all (sc_client sc) (contents q) w"; cases "fst (flush_all (sc_client sc) (contents q) w)")
     (auto simp: FlushDataQueue_def receive_all_open after_flush_def outside_def bindA_def putBack_emptied
        closeQueue_open split: option.splits)

lemma FlushDataQueue_drain_eq:
  assumes "\<not> EnableFailover (sc_config sc)" and "0 < MaxConcurrentRequests (sc_config sc)"
  shows "FlushDataQueue sc (w, q) =
     drain_times (Suc (length (ch_buf q) div nat (MaxConcurrentRequests (sc_config sc)))) sc (w, q)"
proof -
  define k where "k = nat (MaxConcurrentRequests (sc_config sc))"
  then have k: "MaxConcurrentRequests (sc_config sc) = int k" "0 < k" using assms(2) by simp_all
  have "go_div (chan_len q) (int k) = Ret (int (length (ch_buf q) div k))"
    using k(2) by (simp add: go_div_def sgn_if zdiv_int)
  moreover have "nat (int (length (ch_buf q) div k) + 1) = Suc (length (ch_buf q) div k)"
    by (simp add: nat_add_distrib)
  ultimately show ?thesis using assms(1) k(1) by (simp add: FlushDataQueue_def del: drain_times.simps)
qed

section \<open>The standard consumer\<close>

lemma NewTaskConsumer_client [simp]:
  "sc_client (NewTaskConsumer x cfg) = sumo_sender x (NewLogSenderClient cfg)"
  "sc_config (NewTaskConsumer x cfg) = cfg"
  by (simp_all add: NewTaskConsumer_def)

lemma sumo_sender_simps [simp]:
  "send_all_logs (sumo_sender x s) = SendAllLogs x s" "flush_all (sumo_sender x s) = FlushAll x s"
  "send_logs (sumo_sender x s) = SendLogs x s"
  by (simp_all add: sumo_sender_def)

lemma config_NewLogSenderClient [simp]: "config (NewLogSenderClient cfg) = cfg"
  by (simp add: NewLogSenderClient_def)

lemma SendAllLogs_Ret:
  assumes "list_all safe_item (all_items msgs)"
  obtains r w' where "SendAllLogs x s msgs w = (Ret r, w')"
  using SendAllLogs_ret_iff [of x s msgs w] assms by (metis is_ret_iff prod.collapse)

section \<open>The handler\<close>

lemma logsHandler_open:
  assumes "chan_open q"
  shows "\<exists>q'. chan_open q' \<and>
    (if in_path rq = ''/'' \<and> in_method rq = ''POST''
     then logsHandler rq q = (Ret (if length (ch_buf q) < ch_cap q then Replied 200 else Blocked), q')
       \<and> contents q' = contents q @ [in_body rq]
     else logsHandler rq q = (Ret (Replied (if in_path rq = ''/'' then 200 else 404)), q') \<and> q' = q)"
proof (cases "in_path rq = ''/'' \<and> in_method rq = ''POST''")
  case True
  show ?thesis
  proof (cases "length (ch_buf q) < ch_cap q")
    case room: True
    then have "chan_send (in_body rq) q = (Ret Sent, q\<lparr>ch_buf := ch_buf q @ [in_body rq]\<rparr>)"
      using assms by (simp add: chan_send_def)
    with True room assms show ?thesis
      using chan_send_ok [of q] chan_send_Sent [of q] by (fastforce simp: logsHandler_def)
  next
    case full: False
    then have "chan_send (in_body rq) q = (Ret Full, q)" using assms by (simp add: chan_send_def)
    with True full assms show ?thesis using chan_park_ok [of q] by (fastforce simp: logsHandler_def)
  qed
qed (use assms in \<open>auto simp: logsHandler_def\<close>)

section \<open>Properties\<close>

text \<open>
  \<open>logsHandler\<close> on an open queue: a POST to \<open>/\<close> adds exactly the body it read, behind everything
  that waits already, and answers 200 at once when the buffer has room and stays blocked otherwise;
  another path gets 404, another method an empty 200, and neither touches the queue. The queue
  stays well formed.
\<close>

theorem logsHandler_queues:
  assumes "chan_open q"
  shows "\<exists>q'. chan_open q' \<and>
    (if in_path rq = ''/'' \<and> in_method rq = ''POST''
     then logsHandler rq q = (Ret (if length (ch_buf q) < ch_cap q then Replied 200 else Blocked), q')
       \<and> contents q' = contents q @ [in_body rq]
     else logsHandler rq q = (Ret (Replied (if in_path rq = ''/'' then 200 else 404)), q') \<and> q' = q)"
  using assms by (rule logsHandler_open)

definition sample_queue :: "bytes list \<Rightarrow> bytes list \<Rightarrow> bytes chan" where
  "sample_queue buf parked = \<lparr>ch_cap = 2, ch_buf = buf, ch_sendq = parked, ch_closed = False\<rparr>"

theorem logsHandler_queues_witness:
  "fst (logsHandler \<lparr>in_path = ''/'', in_method = ''POST'', in_body = ''[]'', in_err = None\<rparr>
          (sample_queue [''a'', ''b''] [])) = Ret Blocked"
proof -
  have "chan_open (sample_queue [''a'', ''b''] [])" by code_simp
  from logsHandler_queues [OF this, of "\<lparr>in_path = ''/'', in_method = ''POST'', in_body = ''[]'', in_err = None\<rparr>"]
  show ?thesis by (auto simp: sample_queue_def)
qed

text \<open>
  C9. \<open>DrainQueue\<close> on an open queue hands every message, the parked ones included, to the sender in one
  call and in the order of arrival. Without an error the queue is empty afterwards; with an error
  every message is back in its order if the buffer can hold them, and otherwise the call never
  returns; with a panic of the sender the messages are gone. The result is 1 exactly when a message
  mentions \<open>platform.runtimeDone\<close>.
\<close>

theorem DrainQueue_spec:
  assumes "chan_open q"
  shows "DrainQueue sc (w, q) =
    (case send_all_logs (sc_client sc) (contents q) w of
       (Ret None, w') \<Rightarrow> (Ret (done_flag (contents q)), (w', emptied q))
     | (Ret (Some e), w') \<Rightarrow>
         if length (contents q) \<le> ch_cap q then (Ret (done_flag (contents q)), (w', refilled (contents q) q))
         else (Hang, (w', refilled (take (ch_cap q) (contents q)) q))
     | (Panic p, w') \<Rightarrow> (Panic p, (w', emptied q))
     | (Hang, w') \<Rightarrow> (Hang, (w', emptied q)))"
  using DrainQueue_eq [OF assms] by (simp add: after_send_def)

theorem DrainQueue_spec_witness:
  "snd (snd (DrainQueue (NewTaskConsumer sample_ext sample_cfg) (sample_world, sample_queue [sample_payload] [])))
     = emptied (sample_queue [sample_payload] [])"
proof -
  have "chan_open (sample_queue [sample_payload] [])" by code_simp
  moreover have "fst (SendAllLogs sample_ext sample_client (contents (sample_queue [sample_payload] [])) sample_world) = Ret None"
    by code_simp
  ultimately show ?thesis
    using DrainQueue_spec [of "sample_queue [sample_payload] []" "NewTaskConsumer sample_ext sample_cfg" sample_world]
    by (auto simp: sample_client_def split: prod.splits)
qed

text \<open>
  C10. Termination of \<open>DrainQueue\<close>, exactly: the call never returns when the queue has been closed (a
  receive then always succeeds, so the loop goes on for ever), or when the client reports an error and
  more messages were waiting, parked handlers included, than the queue can hold; in every other
  case it returns or panics.
\<close>

theorem DrainQueue_terminates_iff:
  assumes "chan_ok q"
  shows "fst (DrainQueue (NewTaskConsumer x cfg) (w, q)) \<noteq> Hang \<longleftrightarrow>
    \<not> ch_closed q \<and>
    (length (contents q) \<le> ch_cap q
     \<or> (\<forall>e. fst (SendAllLogs x (NewLogSenderClient cfg) (contents q) w) \<noteq> Ret (Some e)))"
proof (cases "ch_closed q")
  case True
  then show ?thesis by (simp add: DrainQueue_def loops_closed)
next
  case False
  with assms have "chan_open q" by simp
  from sumo.DrainQueue_hangs_iff [OF this, of "NewTaskConsumer x cfg"] False show ?thesis by auto
qed

theorem DrainQueue_terminates_iff_witness:
  "fst (DrainQueue (NewTaskConsumer sample_ext sample_cfg) (sample_world, sample_queue [''{'', ''[]''] [''[]''])) = Hang
   \<and> fst (DrainQueue (NewTaskConsumer sample_ext sample_cfg) (sample_world, closed (sample_queue [] []))) = Hang
   \<and> fst (DrainQueue (NewTaskConsumer sample_ext sample_cfg) (sample_world, sample_queue [''{''] [])) \<noteq> Hang"
proof -
  have ok: "chan_ok (sample_queue [''{'', ''[]''] [''[]''])" "chan_ok (closed (sample_queue [] []))"
    "chan_ok (sample_queue [''{''] [])" "ch_closed (closed (sample_queue [] []))" by code_simp+
  moreover have "fst (SendAllLogs sample_ext sample_client (contents (sample_queue [''{'', ''[]''] [''[]''])) sample_world)
      = Ret (Some (ErrSendAllPost 1))" by code_simp
  moreover have "\<not> length (contents (sample_queue [''{'', ''[]''] [''[]''])) \<le> ch_cap (sample_queue [''{'', ''[]''] [''[]''])"
    "length (contents (sample_queue [''{''] [])) \<le> ch_cap (sample_queue [''{''] [])"
    "\<not> ch_closed (sample_queue [''{''] [])" by code_simp+
  ultimately show ?thesis
    using DrainQueue_terminates_iff [OF ok(1), of sample_ext sample_cfg sample_world]
      DrainQueue_terminates_iff [OF ok(2), of sample_ext sample_cfg sample_world]
      DrainQueue_terminates_iff [OF ok(3), of sample_ext sample_cfg sample_world]
    by (auto simp: sample_client_def)
qed



text \<open>
  Without failover a drain of well-formed payloads empties the queue whatever the server answers:
  messages the server never took are dropped, not put back.
\<close>

theorem DrainQueue_drops_without_failover:
  assumes "chan_open q" and "gzip_works x" and "\<not> EnableFailover cfg"
    and "list_all safe_item (all_items (contents q))" and "bad_payloads (contents q) = 0"
  shows "\<exists>w'. DrainQueue (NewTaskConsumer x cfg) (w, q) = (Ret (done_flag (contents q)), (w', emptied q))"
proof -
  obtain r w' where run: "SendAllLogs x (NewLogSenderClient cfg) (contents q) w = (Ret r, w')"
    using SendAllLogs_Ret [OF assms(4)] .
  then have "r = None"
    using SendAllLogs_outcome_no_failover [OF assms(2) _ run] assms(3,5) by simp
  with run assms(1) show ?thesis by (simp add: DrainQueue_eq after_send_def)
qed

theorem DrainQueue_drops_without_failover_witness:
  "\<exists>w'. DrainQueue (NewTaskConsumer sample_reject_ext sample_cfg) (sample_world, sample_queue [sample_payload] [])
     = (Ret 0, (w', sample_queue [] []))"
proof -
  let ?q = "sample_queue [sample_payload] []"
  have "chan_open ?q" by code_simp
  moreover have "list_all safe_item (all_items (contents ?q))" by code_simp
  moreover have "bad_payloads (contents ?q) = 0" by code_simp
  moreover have "done_flag (contents ?q) = 0" by code_simp
  moreover have "emptied ?q = sample_queue [] []" by code_simp
  ultimately show ?thesis
    using DrainQueue_drops_without_failover [OF _ sample_reject_gzip, of ?q sample_cfg sample_world] by simp
qed

text \<open>
  C30. The shutdown flush with failover on: all messages go to \<open>FlushAll\<close> in one call. Without an error the queue
  is empty and closed. With an error the messages are put back and the queue is closed, where no loop of
  the program reads them any more; but when more messages were waiting than the queue holds, parked handlers
  included, the flush blocks for ever in the middle of putting them back and never closes the queue.
\<close>

theorem FlushDataQueue_with_failover:
  assumes "chan_open q" and "EnableFailover cfg" and "FlushAll x (NewLogSenderClient cfg) (contents q) w = (Ret err, w')"
  shows "FlushDataQueue (NewTaskConsumer x cfg) (w, q) =
    (if err = None then (Ret (), (w', closed (emptied q)))
     else if length (contents q) \<le> ch_cap q then (Ret (), (w', closed (refilled (contents q) q)))
     else (Hang, (w', refilled (take (ch_cap q) (contents q)) q)))"
  using assms by (auto simp: FlushDataQueue_failover_eq after_flush_def split: option.splits)

text \<open>A bucket that cannot be written, and one place in a queue with a handler parked behind it.\<close>

definition no_bucket_ext :: ext where
  "no_bucket_ext = sample_ext\<lparr>s3_Upload := (\<lambda>n p. Some (External ''access denied''))\<rparr>"

definition crowded_queue :: "bytes chan" where
  "crowded_queue = \<lparr>ch_cap = 1, ch_buf = [sample_payload], ch_sendq = [sample_payload], ch_closed = False\<rparr>"

theorem FlushDataQueue_with_failover_witness:
  "(\<exists>w'. FlushDataQueue (NewTaskConsumer sample_ext (config sample_bucket_client))
      (sample_world, sample_queue [sample_payload] []) = (Ret (), (w', closed (sample_queue [] []))))
   \<and> fst (FlushDataQueue (NewTaskConsumer no_bucket_ext (config sample_bucket_client)) (sample_world, crowded_queue)) = Hang"
proof -
  let ?q = "sample_queue [sample_payload] []"
  have client: "NewLogSenderClient (config sample_bucket_client) = sample_bucket_client"
    by (simp add: sample_bucket_client_def NewLogSenderClient_def)
  have "fst (FlushAll sample_ext sample_bucket_client (contents ?q) sample_world) = Ret None" by code_simp
  then obtain w' where run: "FlushAll sample_ext sample_bucket_client (contents ?q) sample_world = (Ret None, w')"
    by (metis prod.collapse)
  have "is_ret (fst (FlushAll no_bucket_ext sample_bucket_client (contents crowded_queue) sample_world))"
    "fst (FlushAll no_bucket_ext sample_bucket_client (contents crowded_queue) sample_world) \<noteq> Ret None" by code_simp+
  then obtain e w2 where fails: "FlushAll no_bucket_ext sample_bucket_client (contents crowded_queue) sample_world = (Ret (Some e), w2)"
    by (metis is_ret_iff not_None_eq prod.collapse)
  have "chan_open ?q" "chan_open crowded_queue" "emptied ?q = sample_queue [] []"
    "\<not> length (contents crowded_queue) \<le> ch_cap crowded_queue" by code_simp+
  then show ?thesis
    using FlushDataQueue_with_failover [OF _ sample_bucket_failover, of ?q sample_ext sample_world None w'] run client
      FlushDataQueue_with_failover [OF _ sample_bucket_failover, of crowded_queue no_bucket_ext sample_world "Some e" w2] fails
    by simp
qed

text \<open>
  C31. The shutdown flush without failover: with \<open>MaxConcurrentRequests\<close> zero it panics by dividing by
  zero before it sends anything; with a positive value and a client without error the first of its drains sends
  everything and the others do nothing.
\<close>

theorem FlushDataQueue_without_failover:
  assumes "chan_open q" and "\<not> EnableFailover cfg" and "0 \<le> MaxConcurrentRequests cfg"
    and "SendAllLogs x (NewLogSenderClient cfg) (contents q) w = (Ret None, w')"
  shows "FlushDataQueue (NewTaskConsumer x cfg) (w, q) =
    (if MaxConcurrentRequests cfg = 0 then (Panic DivideByZero, (w, q)) else (Ret (), (w', emptied q)))"
proof (cases "MaxConcurrentRequests cfg = 0")
  case True
  with assms(2) show ?thesis by (simp add: FlushDataQueue_def go_div_def)
next
  case False
  with assms have "FlushDataQueue (NewTaskConsumer x cfg) (w, q) = (Ret (), (w', emptied q))"
    using sumo.drain_times_once [OF assms(1), of "NewTaskConsumer x cfg"]
    by (simp add: FlushDataQueue_drain_eq del: drain_times.simps)
  with False show ?thesis by simp
qed

theorem FlushDataQueue_without_failover_witness:
  "\<exists>w'. FlushDataQueue (NewTaskConsumer sample_ext sample_cfg)
      (sample_world, sample_queue [sample_payload] []) = (Ret (), (w', sample_queue [] []))"
proof -
  let ?q = "sample_queue [sample_payload] []"
  have "fst (SendAllLogs sample_ext sample_client (contents ?q) sample_world) = Ret None" by code_simp
  then obtain w' where run: "SendAllLogs sample_ext sample_client (contents ?q) sample_world = (Ret None, w')"
    by (metis prod.collapse)
  have "chan_open ?q" by code_simp
  moreover have "emptied ?q = sample_queue [] []" by code_simp
  ultimately show ?thesis
    using FlushDataQueue_without_failover [of ?q sample_cfg sample_ext sample_world w'] run
    by (simp add: sample_client_def)
qed

end
