(* ===== verification/Go_Decode.thy ===== *)
theory Go_Decode
  imports Go_Json
begin

text \<open>
  What the program uses of \<open>json.Unmarshal\<close> into a struct: the matching of keys to fields and the
  decoding of string and 64-bit integer fields. An object key that names no field is skipped,
  the last of several keys for one field wins, and null leaves a field alone.
\<close>

text \<open>
  \<open>encoding/json\<close> matches a key to a field by name or, failing that, by its folded name: ASCII letters
  are folded to upper case, and the long s and the Kelvin sign to S and K.
\<close>

fun fold_name :: "string \<Rightarrow> string" where
  "fold_name [] = []"
| "fold_name (c # cs) =
     (let n = of_char c :: int
      in if 97 \<le> n \<and> n \<le> 122 then char_of (n - 32) # fold_name cs
         else (case cs of
                 c1 # cs1 \<Rightarrow>
                   if n = 0xC5 \<and> of_char c1 = (0xBF :: int) then CHR ''S'' # fold_name cs1
                   else (case cs1 of
                           c2 # cs2 \<Rightarrow>
                             if n = 0xE2 \<and> of_char c1 = (0x84 :: int) \<and> of_char c2 = (0xAA :: int)
                             then CHR ''K'' # fold_name cs2
                             else c # fold_name cs
                         | [] \<Rightarrow> c # fold_name cs)
               | [] \<Rightarrow> c # fold_name cs))"

definition names_field :: "string \<Rightarrow> string \<Rightarrow> bool" where
  "names_field field key = (key = field \<or> fold_name key = fold_name field)"

text \<open>A string field: null leaves it alone, another type is an error.\<close>

definition decode_string :: "json \<Rightarrow> string \<Rightarrow> string option" where
  "decode_string j old = (case j of JStr s \<Rightarrow> Some s | JNull \<Rightarrow> Some old | _ \<Rightarrow> None)"

text \<open>An \<open>int64\<close> field: the literal has to be an integer in range, without fraction and exponent.\<close>

definition decode_int64 :: "json \<Rightarrow> int \<Rightarrow> int option" where
  "decode_int64 j old =
     (case j of
        JNum neg ip fp ex \<Rightarrow>
          (let n = (if neg then - digits_val ip 0 else digits_val ip 0)
           in if fp = [] \<and> ex = None \<and> - (2 ^ 63) \<le> n \<and> n < 2 ^ 63 then Some n else None)
      | JNull \<Rightarrow> Some old
      | _ \<Rightarrow> None)"

text \<open>
  Decoding of a struct from its assignment of one member: the members are assigned in order, and a
  value that is neither an object nor null is an error.
\<close>

fun decode_members :: "(string \<Rightarrow> json \<Rightarrow> 's \<Rightarrow> 's option) \<Rightarrow> (string \<times> json) list \<Rightarrow> 's \<Rightarrow> 's option" where
  "decode_members assign [] s = Some s"
| "decode_members assign ((k, j) # ms) s =
     (case assign k j s of None \<Rightarrow> None | Some s' \<Rightarrow> decode_members assign ms s')"

definition decode_struct :: "(string \<Rightarrow> json \<Rightarrow> 's \<Rightarrow> 's option) \<Rightarrow> json \<Rightarrow> 's \<Rightarrow> 's option" where
  "decode_struct assign j s =
     (case j of JObj ms \<Rightarrow> decode_members assign ms s | JNull \<Rightarrow> Some s | _ \<Rightarrow> None)"

lemma decode_int64_range:
  "decode_int64 j old = Some n \<Longrightarrow> - (2 ^ 63) \<le> old \<Longrightarrow> old < 2 ^ 63 \<Longrightarrow> - (2 ^ 63) \<le> n \<and> n < 2 ^ 63"
  by (auto simp: decode_int64_def Let_def split: json.splits if_splits)

end
