(* ===== verification/Managed.thy ===== *)
theory Managed
  imports Workers_Props Go_Decode
begin

text \<open>
  \<open>workers/managed_instance_producer.go\<close> and \<open>workers/managed_instance_consumer.go\<close>: the pair used on
  managed instances. The handler never blocks; it drops a payload that finds the queue full, and
  signals the consumer through a second channel when the queue is at 80 percent or a
  \<open>platform.report\<close> arrives. The consumer drains the queue on every signal.
\<close>

section \<open>Decoding the events\<close>

text \<open>The raw message of \<open>Record\<close>, which the program never reads, is kept as its syntax tree.\<close>

record Event =
  ev_Time :: string
  ev_Type :: string
  ev_Record :: "json option"

definition zero_Event :: Event where
  "zero_Event = \<lparr>ev_Time = [], ev_Type = [], ev_Record = None\<rparr>"

definition assign_Event :: "string \<Rightarrow> json \<Rightarrow> Event \<Rightarrow> Event option" where
  "assign_Event k j e =
     (if names_field ''time'' k then map_option (\<lambda>s. e\<lparr>ev_Time := s\<rparr>) (decode_string j (ev_Time e))
      else if names_field ''type'' k then map_option (\<lambda>s. e\<lparr>ev_Type := s\<rparr>) (decode_string j (ev_Type e))
      else if names_field ''record'' k then Some (e\<lparr>ev_Record := Some j\<rparr>)
      else Some e)"

fun decode_Events :: "json list \<Rightarrow> Event list option" where
  "decode_Events [] = Some []"
| "decode_Events (j # js) =
     (case decode_struct assign_Event j zero_Event of
        None \<Rightarrow> None
      | Some e \<Rightarrow> map_option (\<lambda>es. e # es) (decode_Events js))"

text \<open>\<open>json.Unmarshal(reqBody, &events)\<close>; None is an error.\<close>

definition unmarshal_Events :: "bytes \<Rightarrow> Event list option" where
  "unmarshal_Events reqBody =
     (case json_parse reqBody of
        Some (JArr js) \<Rightarrow> decode_Events js
      | Some JNull \<Rightarrow> Some []
      | _ \<Rightarrow> None)"

section \<open>The producer\<close>

record managedInstanceHttpServer =
  dataQueue :: "bytes chan"
  flushSignal :: "string chan"

text \<open>A send in a \<open>select\<close> with a \<open>default\<close> case.\<close>

definition try_send :: "'a \<Rightarrow> 'a chan \<Rightarrow> unit outcome \<times> 'a chan" where
  "try_send v c = try_requeue [v] c"

definition send_signal :: "string \<Rightarrow> (managedInstanceHttpServer, unit) action" where
  "send_signal sig mhs =
     (case try_send sig (flushSignal mhs) of (r, c) \<Rightarrow> (r, mhs\<lparr>flushSignal := c\<rparr>))"

text \<open>The constant 0.8 as a \<open>float64\<close> is 7205759403792794 times 2 to the power -53.\<close>

definition queueThreshold :: "int \<Rightarrow> int" where
  "queueThreshold queueCap = trunc_float_mul queueCap 7205759403792794 53"

definition checkQueueThreshold :: "(managedInstanceHttpServer, unit) action" where
  "checkQueueThreshold mhs =
     (let queueLen = chan_len (dataQueue mhs); queueCap = chan_cap (dataQueue mhs)
      in if queueLen \<ge> queueThreshold queueCap then send_signal ''queue_threshold'' mhs else (Ret (), mhs))"

fun signal_reports :: "Event list \<Rightarrow> (managedInstanceHttpServer, unit) action" where
  "signal_reports [] mhs = (Ret (), mhs)"
| "signal_reports (event # events) mhs =
     (if ev_Type event = ''platform.report''
      then bindA (send_signal ''platform.report'') (\<lambda>_. signal_reports events) mhs
      else signal_reports events mhs)"

definition managed_logsHandler :: "http_in \<Rightarrow> (managedInstanceHttpServer, int) action" where
  "managed_logsHandler request mhs =
     (if in_path request \<noteq> ''/'' then (Ret 404, mhs)
      else if in_method request = ''POST'' then
        (case in_err request of
           Some err \<Rightarrow> (Ret 500, mhs)
         | None \<Rightarrow>
             bindA (\<lambda>mhs. case try_send (in_body request) (dataQueue mhs) of (r, c) \<Rightarrow> (r, mhs\<lparr>dataQueue := c\<rparr>))
               (\<lambda>_. bindA checkQueueThreshold
                 (\<lambda>_. bindA (case unmarshal_Events (in_body request) of
                               None \<Rightarrow> returnA ()
                             | Some events \<Rightarrow> signal_reports events)
                   (\<lambda>_. returnA 200))) mhs)
      else (Ret 405, mhs))"

definition NewManagedInstanceTaskProducer :: "bytes chan \<Rightarrow> string chan \<Rightarrow> managedInstanceHttpServer" where
  "NewManagedInstanceTaskProducer consumerQueue signals = \<lparr>dataQueue = consumerQueue, flushSignal = signals\<rparr>"

definition managedReceiverIP :: string where
  "managedReceiverIP = ''0.0.0.0''"

definition managedReceiverPort :: int where
  "managedReceiverPort = 4243"

definition managed_Start :: "ext \<Rightarrow> error option outcome" where
  "managed_Start x = serve x (managedReceiverIP @ '':'' @ show_int managedReceiverPort)"

section \<open>The consumer\<close>

record 'w managedInstanceSumoConsumer =
  esc_config :: LambdaExtensionConfig
  esc_client :: "'w LogSender"

definition NewManagedInstanceTaskConsumer ::
  "ext \<Rightarrow> LambdaExtensionConfig \<Rightarrow> world managedInstanceSumoConsumer" where
  "NewManagedInstanceTaskConsumer x cfg =
     \<lparr>esc_config = cfg, esc_client = sumo_sender x (NewLogSenderClient cfg)\<rparr>"

text \<open>The error branch: messages go back by sends that do not block, and are dropped when the queue is full.\<close>

definition tryPutBack :: "bytes list \<Rightarrow> error option \<Rightarrow> ('w qstate, unit) action" where
  "tryPutBack rawMsgArr err st =
     (case err of
        None \<Rightarrow> (Ret (), st)
      | Some e \<Rightarrow> (case try_requeue rawMsgArr (snd st) of (r, q) \<Rightarrow> (r, (fst st, q))))"

definition managed_DrainQueue :: "'w managedInstanceSumoConsumer \<Rightarrow> ('w qstate, int) action" where
  "managed_DrainQueue esc st =
     (case receive_all (snd st) [] of
        None \<Rightarrow> (Hang, st)
      | Some (rawMsgArr, q) \<Rightarrow>
          if length rawMsgArr > 0 then
            bindA (outside (send_all_logs (esc_client esc) rawMsgArr))
              (\<lambda>err. bindA (tryPutBack rawMsgArr err) (\<lambda>_. returnA 0)) (fst st, q)
          else (Ret 0, (fst st, q)))"

fun managed_drain_times :: "nat \<Rightarrow> 'w managedInstanceSumoConsumer \<Rightarrow> ('w qstate, unit) action" where
  "managed_drain_times 0 esc st = (Ret (), st)"
| "managed_drain_times (Suc n) esc st = bindA (managed_DrainQueue esc) (\<lambda>_. managed_drain_times n esc) st"

definition managed_FlushDataQueue :: "'w managedInstanceSumoConsumer \<Rightarrow> ('w qstate, unit) action" where
  "managed_FlushDataQueue esc st =
     (if EnableFailover (esc_config esc) then
        (case receive_all (snd st) [] of
           None \<Rightarrow> (Hang, st)
         | Some (rawMsgArr, q) \<Rightarrow>
             bindA (if length rawMsgArr > 0
                    then bindA (outside (flush_all (esc_client esc) rawMsgArr)) (tryPutBack rawMsgArr)
                    else returnA ())
               (\<lambda>_. closeQueue) (fst st, q))
      else
        (case go_div (chan_len (snd st)) (MaxConcurrentRequests (esc_config esc)) of
           Ret d \<Rightarrow> managed_drain_times (nat (d + 1)) esc st
         | Panic p \<Rightarrow> (Panic p, st)
         | Hang \<Rightarrow> (Hang, st)))"

text \<open>
  The loop of \<open>processFlushSignals\<close>, driven by the case each \<open>select\<close> takes. The result is True when the
  function has returned and False when it waits, either because the list of choices is at its end
  or because the signal channel is empty.
\<close>

datatype sel = CtxDone | SignalReady

fun processFlushSignals ::
  "'w managedInstanceSumoConsumer \<Rightarrow> sel list \<Rightarrow> ('w qstate \<times> string chan, bool) action" where
  "processFlushSignals esc [] st = (Ret False, st)"
| "processFlushSignals esc (CtxDone # sels) st =
     (case managed_FlushDataQueue esc (fst st) of
        (Ret _, qs) \<Rightarrow> (Ret True, (qs, snd st))
      | (Panic p, qs) \<Rightarrow> (Panic p, (qs, snd st))
      | (Hang, qs) \<Rightarrow> (Hang, (qs, snd st)))"
| "processFlushSignals esc (SignalReady # sels) st =
     (case chan_recv [] (snd st) of
        None \<Rightarrow> (Ret False, st)
      | Some (signal, c) \<Rightarrow>
          if signal = ''queue_threshold'' \<or> signal = ''platform.report'' then
            (case managed_DrainQueue esc (fst st) of
               (Ret _, qs) \<Rightarrow> processFlushSignals esc sels (qs, c)
             | (Panic p, qs) \<Rightarrow> (Panic p, (qs, c))
             | (Hang, qs) \<Rightarrow> (Hang, (qs, c)))
          else processFlushSignals esc sels (fst st, c))"

text \<open>
  \<open>Start\<close> of the consumer: the signal loop in a goroutine of its own. The program starts it with
  \<open>context.Background()\<close>, which is never done, so every \<open>select\<close> waits for a signal; \<open>n\<close> is how often the
  goroutine gets to run its loop.
\<close>

definition consumer_Start :: "'w managedInstanceSumoConsumer \<Rightarrow> nat \<Rightarrow> ('w qstate \<times> string chan, bool) action" where
  "consumer_Start esc n = processFlushSignals esc (replicate n SignalReady)"

end
