(* ===== verification/Managed_Props.thy ===== *)
theory Managed_Props
  imports Managed
begin

text \<open>
  Correctness of the managed instance pair: the threshold computed in floating point is four
  fifths of the capacity, the handler never blocks and what it leaves in both channels is given
  exactly, a drain never blocks, and pending signals empty the queue.
\<close>

section \<open>The threshold\<close>

lemma queueThreshold_exact:
  assumes "0 \<le> n" and "n < 2 ^ 31"
  shows "queueThreshold n = 4 * n div 5"
proof -
  define p where "p = n * 7205759403792794"
  define q where "q = 4 * n div 5"
  have five: "5 * p = 2 ^ 53 * (4 * n) + 2 * n" by (simp add: p_def)
  have q: "5 * q \<le> 4 * n" "4 * n \<le> 5 * q + 4" by (simp_all add: q_def)
  have p0: "0 \<le> p" using assms by (simp add: p_def)
  have "p < 2 ^ (53 + 31)" using assms by (simp add: p_def)
  note rounded = round53_props [OF p0 this]
  have low: "q * 2 ^ 53 \<le> p" using five q(1) assms(1) by simp
  have "(2::int) ^ 31 dvd q * 2 ^ 53" by (simp add: dvd_mult le_imp_power_dvd)
  from rounded(2) [OF this low] have lower: "q * 2 ^ 53 \<le> round53 p" .
  have "round53 p \<le> p + 2 ^ 30" using rounded(1) by simp
  then have upper: "round53 p < (q + 1) * 2 ^ 53" using five q(2) assms(2) by simp
  have "round53 p div 2 ^ 53 = q"
    using lower upper by (intro int_div_pos_eq [of _ _ _ "round53 p - q * 2 ^ 53"]) (simp_all add: algebra_simps)
  then show ?thesis by (simp add: queueThreshold_def trunc_float_mul_def p_def q_def)
qed

section \<open>Sends that do not block\<close>

definition offer :: "'a list \<Rightarrow> 'a chan \<Rightarrow> 'a chan" where
  "offer msgs c = c\<lparr>ch_buf := take (ch_cap c) (ch_buf c @ msgs)\<rparr>"

lemma offer_simps [simp]:
  "ch_cap (offer msgs c) = ch_cap c" "ch_closed (offer msgs c) = ch_closed c"
  "ch_sendq (offer msgs c) = ch_sendq c"
  by (simp_all add: offer_def)

lemma offer_ok: "chan_open c \<Longrightarrow> chan_open (offer msgs c)"
  by (auto simp: offer_def chan_ok_def)

lemma offer_offer: "offer ms (offer ns c) = offer (ns @ ms) c"
  by (cases "length (ch_buf c @ ns) \<le> ch_cap c") (simp_all add: offer_def min_def)

lemma offer_Nil: "chan_ok c \<Longrightarrow> offer [] c = c"
  by (cases c) (simp add: offer_def chan_ok_def)

lemma try_requeue_offer: "chan_open c \<Longrightarrow> try_requeue msgs c = (Ret (), offer msgs c)"
  by (simp add: try_requeue_open offer_def room_def chan_ok_def)

lemma send_signal_offer:
  "chan_open (flushSignal mhs) \<Longrightarrow>
     send_signal sig mhs = (Ret (), mhs\<lparr>flushSignal := offer [sig] (flushSignal mhs)\<rparr>)"
  by (simp add: send_signal_def try_send_def try_requeue_offer del: try_requeue.simps)

definition report_signals :: "Event list \<Rightarrow> string list" where
  "report_signals events = map (\<lambda>_. ''platform.report'') (filter (\<lambda>e. ev_Type e = ''platform.report'') events)"

lemma signal_reports_offer:
  "chan_open (flushSignal mhs) \<Longrightarrow>
     signal_reports events mhs = (Ret (), mhs\<lparr>flushSignal := offer (report_signals events) (flushSignal mhs)\<rparr>)"
proof (induction events arbitrary: mhs)
  case Nil
  then show ?case by (simp add: report_signals_def offer_Nil)
next
  case (Cons e events)
  show ?case
  proof (cases "ev_Type e = ''platform.report''")
    case True
    let ?mhs = "mhs\<lparr>flushSignal := offer [''platform.report''] (flushSignal mhs)\<rparr>"
    have "chan_open (flushSignal ?mhs)" using Cons.prems by (simp add: offer_ok)
    from Cons.IH [OF this] True Cons.prems show ?thesis
      by (simp add: send_signal_offer offer_offer report_signals_def)
  qed (use Cons in \<open>simp add: report_signals_def\<close>)
qed

section \<open>The handler\<close>

text \<open>The signals one payload raises, given the queue it was offered to.\<close>

definition raised :: "bytes \<Rightarrow> bytes chan \<Rightarrow> string list" where
  "raised body q =
     (if chan_len (offer [body] q) \<ge> queueThreshold (chan_cap q) then [''queue_threshold''] else [])
     @ (case unmarshal_Events body of None \<Rightarrow> [] | Some events \<Rightarrow> report_signals events)"

lemma checkQueueThreshold_offer:
  "chan_open (flushSignal mhs) \<Longrightarrow> checkQueueThreshold mhs =
     (Ret (), mhs\<lparr>flushSignal := offer
        (if chan_len (dataQueue mhs) \<ge> queueThreshold (chan_cap (dataQueue mhs)) then [''queue_threshold''] else [])
        (flushSignal mhs)\<rparr>)"
  by (simp add: checkQueueThreshold_def send_signal_offer offer_Nil Let_def)

lemma managed_logsHandler_post:
  assumes "chan_open (dataQueue mhs)" and "chan_open (flushSignal mhs)"
    and "in_path rq = ''/''" and "in_method rq = ''POST''" and "in_err rq = None"
  shows "managed_logsHandler rq mhs =
     (Ret 200, \<lparr>dataQueue = offer [in_body rq] (dataQueue mhs),
                flushSignal = offer (raised (in_body rq) (dataQueue mhs)) (flushSignal mhs)\<rparr>)"
proof -
  obtain dq fs where mhs: "mhs = \<lparr>dataQueue = dq, flushSignal = fs\<rparr>" by (cases mhs) simp
  let ?dq = "offer [in_body rq] dq"
  define t where "t = (if chan_len ?dq \<ge> queueThreshold (chan_cap dq) then [''queue_threshold''] else [])"
  have raised: "raised (in_body rq) dq =
      t @ (case unmarshal_Events (in_body rq) of None \<Rightarrow> [] | Some events \<Rightarrow> report_signals events)"
    by (simp add: raised_def t_def)
  have check: "checkQueueThreshold \<lparr>dataQueue = ?dq, flushSignal = fs\<rparr> =
      (Ret (), \<lparr>dataQueue = ?dq, flushSignal = offer t fs\<rparr>)"
    using assms(2) mhs checkQueueThreshold_offer [of "\<lparr>dataQueue = ?dq, flushSignal = fs\<rparr>"] by (simp add: t_def)
  have "chan_open (offer t fs)" using assms(2) mhs by (simp add: offer_ok)
  then have reports: "(case unmarshal_Events (in_body rq) of None \<Rightarrow> returnA () | Some events \<Rightarrow> signal_reports events)
      \<lparr>dataQueue = ?dq, flushSignal = offer t fs\<rparr> =
      (Ret (), \<lparr>dataQueue = ?dq, flushSignal = offer (raised (in_body rq) dq) fs\<rparr>)"
    using signal_reports_offer [of "\<lparr>dataQueue = ?dq, flushSignal = offer t fs\<rparr>"]
    by (simp add: raised offer_offer returnA_def split: option.split)
  have "try_send (in_body rq) dq = (Ret (), ?dq)"
    using assms(1) mhs by (simp add: try_send_def try_requeue_offer del: try_requeue.simps)
  with assms(3-5) check reports show ?thesis
    by (simp add: managed_logsHandler_def mhs bindA_def returnA_def)
qed

section \<open>The consumer\<close>

definition after_try :: "bytes list \<Rightarrow> 'a \<Rightarrow> bytes chan \<Rightarrow> error option outcome \<times> 'w \<Rightarrow> 'a outcome \<times> 'w qstate" where
  "after_try msgs res q sent =
     (case sent of
        (Ret None, w) \<Rightarrow> (Ret res, (w, emptied q))
      | (Ret (Some e), w) \<Rightarrow> (Ret res, (w, refilled (take (ch_cap q) msgs) q))
      | (Panic p, w) \<Rightarrow> (Panic p, (w, emptied q))
      | (Hang, w) \<Rightarrow> (Hang, (w, emptied q)))"

lemma tryPutBack_emptied:
  "\<not> ch_closed q \<Longrightarrow> tryPutBack msgs (Some e) (w, emptied q) = (Ret (), (w, refilled (take (ch_cap q) msgs) q))"
  by (simp add: tryPutBack_def try_requeue_open refilled_def)

lemma tryPutBack_None [simp]: "tryPutBack msgs None st = (Ret (), st)"
  by (simp add: tryPutBack_def)

lemma emptied_self: "contents q = [] \<Longrightarrow> emptied q = q"
  by (cases q) (simp add: contents_def emptied_def)

lemma managed_DrainQueue_eq:
  assumes "chan_open q"
  shows "managed_DrainQueue esc (w, q) =
     (if contents q = [] then (Ret 0, (w, q))
      else after_try (contents q) 0 q (send_all_logs (esc_client esc) (contents q) w))"
  using assms
  by (cases "send_all_logs (esc_client esc) (contents q) w";
      cases "fst (send_all_logs (esc_client esc) (contents q) w)")
     (auto simp: managed_DrainQueue_def receive_all_open emptied_self after_try_def outside_def bindA_def
        returnA_def tryPutBack_emptied split: option.splits)

context log_sender
begin

lemma managed_DrainQueue_no_hang:
  assumes "chan_open q" and "esc_client esc = ls"
  shows "fst (managed_DrainQueue esc (w, q)) \<noteq> Hang"
  using assms send_all_no_hang [of "contents q" w]
  by (cases "send_all_logs ls (contents q) w"; cases "fst (send_all_logs ls (contents q) w)")
     (auto simp: managed_DrainQueue_eq after_try_def split: option.splits)

end



lemma NewManaged_client [simp]:
  "esc_client (NewManagedInstanceTaskConsumer x cfg) = sumo_sender x (NewLogSenderClient cfg)"
  "esc_config (NewManagedInstanceTaskConsumer x cfg) = cfg"
  by (simp_all add: NewManagedInstanceTaskConsumer_def)

section \<open>Properties\<close>

text \<open>
  C34. The threshold computed as \<open>int(float64(queueCap) * 0.8)\<close> is exactly four fifths of the capacity,
  rounded down, for every capacity the configuration can give: the rounding of the product in
  floating point never shows.
\<close>

theorem queueThreshold_is_four_fifths:
  assumes "0 \<le> n" and "n < 2 ^ 31"
  shows "queueThreshold n = 4 * n div 5"
  using assms by (rule queueThreshold_exact)

theorem queueThreshold_is_four_fifths_witness: "queueThreshold 20 = 16"
  using queueThreshold_is_four_fifths [of 20] by simp

text \<open>
  C19. \<open>logsHandler\<close> of the managed producer never blocks and never panics on open channels. A POST to \<open>/\<close>
  whose body was read is answered 200 and leaves exactly this: the payload is behind the others if
  the queue had room and dropped otherwise, and the signals it raises (the threshold first, then
  one per \<open>platform.report\<close>) are behind the pending ones as far as the signal channel has room. A
  failed read is answered 500, another method 405, another path 404, without touching a channel.
\<close>

theorem managed_logsHandler_spec:
  assumes "chan_open (dataQueue mhs)" and "chan_open (flushSignal mhs)"
  shows "managed_logsHandler rq mhs =
    (if in_path rq \<noteq> ''/'' then (Ret 404, mhs)
     else if in_method rq \<noteq> ''POST'' then (Ret 405, mhs)
     else if in_err rq \<noteq> None then (Ret 500, mhs)
     else (Ret 200, \<lparr>dataQueue = offer [in_body rq] (dataQueue mhs),
                     flushSignal = offer (raised (in_body rq) (dataQueue mhs)) (flushSignal mhs)\<rparr>))"
  using managed_logsHandler_post [OF assms] by (auto simp: managed_logsHandler_def split: option.splits)

definition sample_server :: managedInstanceHttpServer where
  "sample_server =
     \<lparr>dataQueue = sample_queue [''[]''] [], flushSignal = \<lparr>ch_cap = 10, ch_buf = [], ch_sendq = [], ch_closed = False\<rparr>\<rparr>"

definition sample_report :: http_in where
  "sample_report =
     \<lparr>in_path = ''/'', in_method = ''POST'', in_body = ''[{\"Type\":\"platform.report\"}]'', in_err = None\<rparr>"

lemma sample_server_open: "chan_open (dataQueue sample_server)" "chan_open (flushSignal sample_server)"
  by code_simp+

theorem managed_logsHandler_spec_witness:
  "\<exists>mhs. managed_logsHandler sample_report sample_server = (Ret 200, mhs)
     \<and> ch_buf (flushSignal mhs) = [''queue_threshold'', ''platform.report'']"
proof -
  have "offer (raised (in_body sample_report) (dataQueue sample_server)) (flushSignal sample_server) =
      (flushSignal sample_server)\<lparr>ch_buf := [''queue_threshold'', ''platform.report'']\<rparr>" by code_simp
  then show ?thesis
    using managed_logsHandler_spec [OF sample_server_open, of sample_report] by (simp add: sample_report_def)
qed

text \<open>
  No missed threshold: whenever the handler has taken a payload and the queue is then at four fifths
  of its capacity or more, a signal is pending for the consumer.
\<close>

theorem threshold_signalled:
  assumes "chan_open (dataQueue mhs)" and "chan_open (flushSignal mhs)" and "0 < ch_cap (flushSignal mhs)"
    and "chan_cap (dataQueue mhs) < 2 ^ 31" and "managed_logsHandler rq mhs = (Ret 200, mhs')"
    and "4 * chan_cap (dataQueue mhs') div 5 \<le> chan_len (dataQueue mhs')"
  shows "ch_buf (flushSignal mhs') \<noteq> []"
proof -
  have post: "in_path rq = ''/''" "in_method rq = ''POST''" "in_err rq = None"
    using assms(5) by (auto simp: managed_logsHandler_def split: if_splits option.splits)
  have mhs': "mhs' = \<lparr>dataQueue = offer [in_body rq] (dataQueue mhs),
      flushSignal = offer (raised (in_body rq) (dataQueue mhs)) (flushSignal mhs)\<rparr>"
    using managed_logsHandler_post [OF assms(1,2) post] assms(5) by simp
  have "queueThreshold (chan_cap (dataQueue mhs)) \<le> chan_len (offer [in_body rq] (dataQueue mhs))"
    using assms(4,6) mhs' by (simp add: queueThreshold_exact)
  then have "raised (in_body rq) (dataQueue mhs) \<noteq> []" by (simp add: raised_def)
  with assms(3) mhs' show ?thesis by (simp add: offer_def)
qed

theorem threshold_signalled_witness:
  "ch_buf (flushSignal (snd (managed_logsHandler sample_report sample_server))) \<noteq> []"
proof (rule threshold_signalled [OF sample_server_open])
  show "managed_logsHandler sample_report sample_server
      = (Ret 200, snd (managed_logsHandler sample_report sample_server))" by code_simp
qed code_simp+

text \<open>
  C29. \<open>DrainQueue\<close> of the managed consumer on an open queue: an empty queue sends nothing; otherwise all
  messages go to the sender in one call and in order, and after an error as many as the queue can
  hold, the oldest first, are back in it. It never blocks, and its result is always 0.
\<close>

theorem managed_DrainQueue_spec:
  assumes "chan_open q"
  shows "managed_DrainQueue (NewManagedInstanceTaskConsumer x cfg) (w, q) =
      (if contents q = [] then (Ret 0, (w, q))
       else case SendAllLogs x (NewLogSenderClient cfg) (contents q) w of
         (Ret None, w') \<Rightarrow> (Ret 0, (w', emptied q))
       | (Ret (Some e), w') \<Rightarrow> (Ret 0, (w', refilled (take (ch_cap q) (contents q)) q))
       | (Panic p, w') \<Rightarrow> (Panic p, (w', emptied q))
       | (Hang, w') \<Rightarrow> (Hang, (w', emptied q)))
    \<and> fst (managed_DrainQueue (NewManagedInstanceTaskConsumer x cfg) (w, q)) \<noteq> Hang"
  by (intro conjI sumo.managed_DrainQueue_no_hang [OF assms NewManaged_client(1)])
     (simp add: managed_DrainQueue_eq [OF assms] after_try_def)

theorem managed_DrainQueue_spec_witness:
  "\<exists>w'. managed_DrainQueue (NewManagedInstanceTaskConsumer sample_ext sample_cfg)
      (sample_world, sample_queue [''{'', ''[]''] []) = (Ret 0, (w', sample_queue [''{'', ''[]''] []))"
proof -
  let ?q = "sample_queue [''{'', ''[]''] []"
  have "chan_open ?q" by code_simp
  moreover have "fst (SendAllLogs sample_ext sample_client (contents ?q) sample_world) = Ret (Some (ErrSendAllPost 1))"
    by code_simp
  moreover have "contents ?q \<noteq> []" by code_simp
  moreover have "refilled (take (ch_cap ?q) (contents ?q)) ?q = ?q" by code_simp
  ultimately show ?thesis
    using managed_DrainQueue_spec [of ?q sample_ext sample_cfg sample_world]
    by (auto simp: sample_client_def split: prod.splits)
qed



end
