(* ===== verification/System.thy ===== *)
theory System
  imports Managed_Props
begin

text \<open>
  The goroutines of the standard mode as a transition system: handlers that put payloads into the
  data queue at any moment, interleaved with the single operations of a drain (one receive, the call of
  the client, one send of the requeue). The call of the client has three steps, one per outcome: no
  error, an error, a panic, after which the consumer never runs again. Which of them a real client takes is part of the
  refinement of \<open>DrainQueue\<close> below. The ghost fields record the payloads the handlers took, the
  payloads handed to the client without error, and whether a call of the client has failed. The shutdown flush,
  which closes the queue, is not a step.
\<close>

section \<open>States and steps\<close>

datatype phase =
    Idle
  | Receiving "bytes list"
  | Calling "bytes list"
  | Requeueing "bytes list"
  | Crashed "bytes list"

record sys =
  s_queue :: "bytes chan"
  s_phase :: phase
  s_taken :: "bytes list"
  s_sent :: "bytes list"
  s_failed :: bool

fun in_flight :: "phase \<Rightarrow> bytes list" where
  "in_flight Idle = []"
| "in_flight (Receiving b) = b"
| "in_flight (Calling b) = b"
| "in_flight (Requeueing b) = b"
| "in_flight (Crashed b) = b"

inductive step :: "sys \<Rightarrow> sys \<Rightarrow> bool" where
  handle: "in_path rq = ''/'' \<Longrightarrow> in_method rq = ''POST'' \<Longrightarrow> logsHandler rq (s_queue s) = (Ret r, q) \<Longrightarrow>
    step s (s\<lparr>s_queue := q, s_taken := s_taken s @ [in_body rq]\<rparr>)"
| start: "s_phase s = Idle \<Longrightarrow> step s (s\<lparr>s_phase := Receiving []\<rparr>)"
| receive: "s_phase s = Receiving b \<Longrightarrow> chan_recv [] (s_queue s) = Some (v, q) \<Longrightarrow>
    step s (s\<lparr>s_queue := q, s_phase := Receiving (b @ [v])\<rparr>)"
| no_more: "s_phase s = Receiving b \<Longrightarrow> chan_recv [] (s_queue s) = None \<Longrightarrow>
    step s (s\<lparr>s_phase := Calling b\<rparr>)"
| succeed: "s_phase s = Calling b \<Longrightarrow> step s (s\<lparr>s_phase := Idle, s_sent := s_sent s @ b\<rparr>)"
| fail: "s_phase s = Calling b \<Longrightarrow> step s (s\<lparr>s_phase := Requeueing b, s_failed := True\<rparr>)"
| crash: "s_phase s = Calling b \<Longrightarrow> step s (s\<lparr>s_phase := Crashed b\<rparr>)"
| put_back: "s_phase s = Requeueing (m # ms) \<Longrightarrow> chan_send m (s_queue s) = (Ret Sent, q) \<Longrightarrow>
    step s (s\<lparr>s_queue := q, s_phase := Requeueing ms\<rparr>)"
| finish: "s_phase s = Requeueing [] \<Longrightarrow> step s (s\<lparr>s_phase := Idle\<rparr>)"

inductive_cases stepE: "step s s'"

abbreviation steps :: "sys \<Rightarrow> sys \<Rightarrow> bool" where
  "steps \<equiv> step\<^sup>*\<^sup>*"

definition initial_sys :: "nat \<Rightarrow> sys" where
  "initial_sys k =
     \<lparr>s_queue = \<lparr>ch_cap = k, ch_buf = [], ch_sendq = [], ch_closed = False\<rparr>, s_phase = Idle,
      s_taken = [], s_sent = [], s_failed = False\<rparr>"

section \<open>Conservation\<close>

definition sys_inv :: "sys \<Rightarrow> bool" where
  "sys_inv s \<longleftrightarrow>
     chan_open (s_queue s)
     \<and> mset (s_taken s) = mset (s_sent s) + mset (in_flight (s_phase s)) + mset (contents (s_queue s))
     \<and> (\<not> s_failed s \<longrightarrow> s_taken s = s_sent s @ in_flight (s_phase s) @ contents (s_queue s))
     \<and> (\<forall>b. s_phase s = Requeueing b \<longrightarrow> s_failed s)"

lemma sys_inv_initial: "sys_inv (initial_sys k)"
  by (simp add: sys_inv_def initial_sys_def chan_ok_def contents_def)

lemma logsHandler_take:
  assumes "chan_open q" and "in_path rq = ''/''" and "in_method rq = ''POST''" and "logsHandler rq q = (Ret r, q')"
  shows "chan_open q' \<and> contents q' = contents q @ [in_body rq]"
proof -
  have "\<exists>q1. chan_open q1 \<and> snd (logsHandler rq q) = q1 \<and> contents q1 = contents q @ [in_body rq]"
    using logsHandler_open [OF assms(1), of rq] assms(2,3) by fastforce
  then show ?thesis using assms(4) by simp
qed

lemma sys_inv_step: "step s s' \<Longrightarrow> sys_inv s \<Longrightarrow> sys_inv s'"
proof (induction rule: step.induct)
  case (handle rq s r q)
  then have "chan_open q \<and> contents q = contents (s_queue s) @ [in_body rq]"
    using logsHandler_take [OF _ handle(1-3)] by (simp add: sys_inv_def)
  with handle show ?case by (auto simp: sys_inv_def)
next
  case (receive s b v q)
  then have "contents (s_queue s) = v # contents q \<and> chan_open q"
    using chan_recv_open [of "s_queue s" "[]"] by (auto simp: sys_inv_def)
  with receive show ?case by (auto simp: sys_inv_def)
next
  case (put_back s m ms q)
  then have "contents q = contents (s_queue s) @ [m] \<and> chan_open q"
    using chan_send_Sent chan_send_ok by (metis sys_inv_def)
  with put_back show ?case by (auto simp: sys_inv_def)
qed (auto simp: sys_inv_def)

lemma sys_inv_steps: "steps s s' \<Longrightarrow> sys_inv s \<Longrightarrow> sys_inv s'"
  by (induction rule: rtranclp_induct) (auto intro: sys_inv_step)

section \<open>The drain as a run\<close>

lemma receive_run:
  "chan_open (s_queue s) \<Longrightarrow> s_phase s = Receiving b \<Longrightarrow>
     steps s (s\<lparr>s_queue := emptied (s_queue s), s_phase := Calling (b @ contents (s_queue s))\<rparr>)"
proof (induction "contents (s_queue s)" arbitrary: s b)
  case Nil
  then have "chan_recv [] (s_queue s) = None" by (simp add: chan_recv_None)
  from step.no_more [OF Nil(3) this] Nil show ?case by (simp add: emptied_self r_into_rtranclp)
next
  case (Cons v vs)
  then obtain q where recv: "chan_recv [] (s_queue s) = Some (v, q)"
    using chan_recv_open [of "s_queue s" "[]"] chan_recv_None [of "[]" "s_queue s"]
    by (cases "chan_recv [] (s_queue s)") auto
  have q: "contents (s_queue s) = v # contents q" "chan_open q" "ch_cap q = ch_cap (s_queue s)"
    using chan_recv_open [of "s_queue s" "[]"] recv Cons.prems(1) by auto
  let ?s = "s\<lparr>s_queue := q, s_phase := Receiving (b @ [v])\<rparr>"
  have "emptied q = emptied (s_queue s)"
    using q Cons.prems(1) by (cases q; cases "s_queue s") (simp add: emptied_def)
  moreover have "steps ?s (?s\<lparr>s_queue := emptied q, s_phase := Calling ((b @ [v]) @ contents q)\<rparr>)"
    using Cons.hyps(1) [of ?s "b @ [v]"] Cons.hyps(2) q by simp
  ultimately have "steps ?s (s\<lparr>s_queue := emptied (s_queue s), s_phase := Calling (b @ contents (s_queue s))\<rparr>)"
    using q(1) by simp
  with step.receive [OF Cons.prems(2) recv] show ?case by (rule converse_rtranclp_into_rtranclp)
qed

text \<open>Putting messages back: all of them, or as many as there is room for, and then the consumer waits for ever.\<close>

lemma requeue_run:
  "\<not> ch_closed (s_queue s) \<Longrightarrow> s_phase s = Requeueing ms \<Longrightarrow> requeue ms (s_queue s) = (Ret (), q) \<Longrightarrow>
     steps s (s\<lparr>s_queue := q, s_phase := Idle\<rparr>)"
proof (induction ms arbitrary: s)
  case Nil
  with step.finish [of s] show ?case by (auto intro: r_into_rtranclp)
next
  case (Cons m ms)
  then obtain q1 where send: "chan_send m (s_queue s) = (Ret Sent, q1)" and rest: "requeue ms q1 = (Ret (), q)"
    by (auto split: prod.splits outcome.splits send_result.splits)
  have "\<not> ch_closed q1" using send Cons.prems(1) by (auto simp: chan_send_def split: if_splits)
  with Cons.IH [of "s\<lparr>s_queue := q1, s_phase := Requeueing ms\<rparr>"] rest
  have "steps (s\<lparr>s_queue := q1, s_phase := Requeueing ms\<rparr>) (s\<lparr>s_queue := q, s_phase := Idle\<rparr>)" by simp
  with step.put_back [OF Cons.prems(2) send] show ?case by (rule converse_rtranclp_into_rtranclp)
qed

lemma requeue_blocks:
  "chan_open (s_queue s) \<Longrightarrow> s_phase s = Requeueing ms \<Longrightarrow> requeue ms (s_queue s) = (Hang, q) \<Longrightarrow>
     \<exists>m rest. steps s (s\<lparr>s_queue := q, s_phase := Requeueing (m # rest)\<rparr>) \<and> chan_open q \<and> length (ch_buf q) = ch_cap q"
proof (induction ms arbitrary: s)
  case (Cons m ms)
  show ?case
  proof (cases "length (ch_buf (s_queue s)) < ch_cap (s_queue s)")
    case True
    let ?q = "s_queue s\<lparr>ch_buf := ch_buf (s_queue s) @ [m]\<rparr>"
    let ?s = "s\<lparr>s_queue := ?q, s_phase := Requeueing ms\<rparr>"
    have send: "chan_send m (s_queue s) = (Ret Sent, ?q)" using True Cons.prems(1) by (simp add: chan_send_def)
    then have "chan_open ?q" using chan_send_ok [OF _ send] Cons.prems(1) by auto
    moreover have "requeue ms ?q = (Hang, q)" using Cons.prems(3) send by simp
    ultimately obtain m' rest where "steps ?s (s\<lparr>s_queue := q, s_phase := Requeueing (m' # rest)\<rparr>)"
      "chan_open q" "length (ch_buf q) = ch_cap q"
      using Cons.IH [of ?s] by auto
    with step.put_back [OF Cons.prems(2) send] show ?thesis by (meson converse_rtranclp_into_rtranclp)
  next
    case False
    then have "q = s_queue s" "length (ch_buf q) = ch_cap q" using Cons.prems(1,3) by (auto simp: chan_send_def chan_ok_def)
    moreover from this have "s\<lparr>s_queue := q, s_phase := Requeueing (m # ms)\<rparr> = s" using Cons.prems(2) by simp
    ultimately show ?thesis using Cons.prems(1) by (metis rtranclp.rtrancl_refl)
  qed
qed simp

section \<open>Deadlock\<close>

text \<open>A state from which the consumer never moves again, whatever the handlers do.\<close>

definition stuck :: "sys \<Rightarrow> bool" where
  "stuck s = (\<forall>s'. steps s s' \<longrightarrow> s_phase s' = s_phase s \<and> s_sent s' = s_sent s)"

definition blocked :: "sys \<Rightarrow> bool" where
  "blocked s = (chan_open (s_queue s) \<and> length (ch_buf (s_queue s)) = ch_cap (s_queue s)
     \<and> (\<exists>m ms. s_phase s = Requeueing (m # ms)))"

lemma blocked_step:
  assumes "step s s'" and "blocked s"
  shows "blocked s' \<and> s_phase s' = s_phase s \<and> s_sent s' = s_sent s"
  using assms
proof (cases rule: step.cases)
  case (handle rq r q)
  have "\<not> length (ch_buf (s_queue s)) < ch_cap (s_queue s)" using assms(2) by (simp add: blocked_def)
  then have "q = chan_park (in_body rq) (s_queue s)"
    using handle assms(2) by (auto simp: blocked_def logsHandler_def chan_send_def)
  with handle assms(2) show ?thesis by (auto simp: blocked_def chan_park_def chan_ok_def)
next
  case (put_back m ms q)
  with assms(2) show ?thesis by (auto simp: blocked_def chan_send_def)
qed (use assms(2) in \<open>auto simp: blocked_def\<close>)

lemma blocked_stuck: "blocked s \<Longrightarrow> stuck s"
proof -
  assume s: "blocked s"
  have still: "blocked s' \<and> s_phase s' = s_phase s \<and> s_sent s' = s_sent s" if "steps s s'" for s'
    using that
  proof (induction rule: rtranclp_induct)
    case (step s1 s2)
    with blocked_step [OF step.hyps(2)] show ?case by simp
  qed (use s in simp)
  show ?thesis unfolding stuck_def
  proof (intro allI impI)
    fix s' assume "steps s s'"
    from still [OF this] show "s_phase s' = s_phase s \<and> s_sent s' = s_sent s" by simp
  qed
qed

text \<open>What becomes of messages put back into the queue they were taken from.\<close>

lemma requeue_all_run:
  assumes "chan_open q" and "s_queue s = emptied q" and "s_phase s = Requeueing ms"
  shows "length ms \<le> ch_cap q \<Longrightarrow> steps s (s\<lparr>s_queue := refilled ms q, s_phase := Idle\<rparr>)"
    and "ch_cap q < length ms \<Longrightarrow> \<exists>s'. steps s s' \<and> stuck s' \<and> s_queue s' = refilled (take (ch_cap q) ms) q
      \<and> s_taken s' = s_taken s \<and> s_sent s' = s_sent s \<and> s_failed s' = s_failed s"
proof -
  have puts: "requeue ms (s_queue s) = (if length ms \<le> ch_cap q then (Ret (), refilled ms q)
      else (Hang, refilled (take (ch_cap q) ms) q))"
    using assms(1,2) by (simp add: requeue_open refilled_def)
  show "steps s (s\<lparr>s_queue := refilled ms q, s_phase := Idle\<rparr>)" if "length ms \<le> ch_cap q"
    using requeue_run [OF _ assms(3)] puts that assms(1,2) by simp
  show "\<exists>s'. steps s s' \<and> stuck s' \<and> s_queue s' = refilled (take (ch_cap q) ms) q
      \<and> s_taken s' = s_taken s \<and> s_sent s' = s_sent s \<and> s_failed s' = s_failed s" if "ch_cap q < length ms"
  proof -
    let ?q = "refilled (take (ch_cap q) ms) q"
    have "requeue ms (s_queue s) = (Hang, ?q)" using puts that by simp
    from requeue_blocks [OF _ assms(3) this] obtain m rest where run: "steps s (s\<lparr>s_queue := ?q, s_phase := Requeueing (m # rest)\<rparr>)"
      "chan_open ?q" "length (ch_buf ?q) = ch_cap ?q"
      using assms(1,2) by auto
    then have "stuck (s\<lparr>s_queue := ?q, s_phase := Requeueing (m # rest)\<rparr>)" by (intro blocked_stuck) (simp add: blocked_def)
    with run(1) show ?thesis by (intro exI [of _ "s\<lparr>s_queue := ?q, s_phase := Requeueing (m # rest)\<rparr>"]) simp
  qed
qed

section \<open>Properties\<close>

text \<open>
  C4. No payload is lost or duplicated between the handlers and the client, however the goroutines are
  interleaved: in every reachable state each payload a handler took is exactly once among those
  handed to the client without error, those the consumer holds, and those in the queue (parked
  handlers included). As long as no call of the client has failed they are also in order.
\<close>

theorem messages_conserved:
  assumes "steps (initial_sys k) s"
  shows "mset (s_taken s) = mset (s_sent s) + mset (in_flight (s_phase s)) + mset (contents (s_queue s))
    \<and> (if s_failed s then True else s_taken s = s_sent s @ in_flight (s_phase s) @ contents (s_queue s))
    \<and> length (ch_buf (s_queue s)) \<le> ch_cap (s_queue s)"
  using sys_inv_steps [OF assms sys_inv_initial] by (simp add: sys_inv_def chan_ok_def)

definition sample_post :: "bytes \<Rightarrow> http_in" where
  "sample_post b = \<lparr>in_path = ''/'', in_method = ''POST'', in_body = b, in_err = None\<rparr>"

lemma handle_post:
  "step s (s\<lparr>s_queue := snd (logsHandler (sample_post b) (s_queue s)), s_taken := s_taken s @ [b]\<rparr>)"
  if "\<not> ch_closed (s_queue s)"
proof -
  have "\<exists>r. logsHandler (sample_post b) (s_queue s) = (Ret r, snd (logsHandler (sample_post b) (s_queue s)))"
    using that by (auto simp: logsHandler_def sample_post_def chan_send_def)
  then obtain r where "logsHandler (sample_post b) (s_queue s) = (Ret r, snd (logsHandler (sample_post b) (s_queue s)))" ..
  from step.handle [OF _ _ this] show ?thesis by (simp add: sample_post_def)
qed

text \<open>The run to a deadlock with a queue of one place: two payloads arrive and the client fails.\<close>

definition one_place :: "bytes list \<Rightarrow> bytes list \<Rightarrow> bytes chan" where
  "one_place buf parked = \<lparr>ch_cap = 1, ch_buf = buf, ch_sendq = parked, ch_closed = False\<rparr>"

definition deadlocked :: sys where
  "deadlocked = \<lparr>s_queue = one_place [''a''] [], s_phase = Requeueing [''b''], s_taken = [''a'', ''b''],
     s_sent = [], s_failed = True\<rparr>"

definition two_taken :: sys where
  "two_taken = \<lparr>s_queue = one_place [''a''] [''b''], s_phase = Idle, s_taken = [''a'', ''b''],
     s_sent = [], s_failed = False\<rparr>"

lemma two_taken_reached: "steps (initial_sys 1) two_taken"
proof -
  let ?s1 = "\<lparr>s_queue = one_place [''a''] [], s_phase = Idle, s_taken = [''a''], s_sent = [], s_failed = False\<rparr>"
  have "step (initial_sys 1) ?s1"
    using handle_post [of "initial_sys 1" "''a''"]
    by (simp add: initial_sys_def logsHandler_def sample_post_def chan_send_def one_place_def)
  moreover have "step ?s1 two_taken"
    using handle_post [of ?s1 "''b''"]
    by (simp add: two_taken_def logsHandler_def sample_post_def chan_send_def chan_park_def one_place_def)
  ultimately show ?thesis by (meson converse_rtranclp_into_rtranclp r_into_rtranclp)
qed

lemma deadlocked_reached: "steps two_taken deadlocked"
proof -
  let ?s = "\<lambda>q p. \<lparr>s_queue = q, s_phase = p, s_taken = [''a'', ''b''], s_sent = [], s_failed = False\<rparr>"
  let ?f = "\<lambda>q p. \<lparr>s_queue = q, s_phase = p, s_taken = [''a'', ''b''], s_sent = [], s_failed = True\<rparr>"
  have "step two_taken (?s (one_place [''a''] [''b'']) (Receiving []))"
    using step.start [of two_taken] by (simp add: two_taken_def)
  also have "steps (?s (one_place [''a''] [''b'']) (Receiving [])) (?s (one_place [] []) (Calling [''a'', ''b'']))"
    using receive_run [of "?s (one_place [''a''] [''b'']) (Receiving [])" "[]"]
    by (simp add: one_place_def chan_ok_def contents_def emptied_def)
  also have "step (?s (one_place [] []) (Calling [''a'', ''b''])) (?f (one_place [] []) (Requeueing [''a'', ''b'']))"
    using step.fail [of "?s (one_place [] []) (Calling [''a'', ''b''])"] by simp
  also have "step (?f (one_place [] []) (Requeueing [''a'', ''b''])) deadlocked"
    using step.put_back [of "?f (one_place [] []) (Requeueing [''a'', ''b''])"]
    by (simp add: one_place_def chan_send_def deadlocked_def)
  finally show ?thesis .
qed

theorem messages_conserved_witness:
  "mset (s_taken deadlocked) = mset (s_sent deadlocked) + mset (in_flight (s_phase deadlocked))
     + mset (contents (s_queue deadlocked))"
  using messages_conserved [OF rtranclp_trans [OF two_taken_reached deadlocked_reached]] by simp


text \<open>
  What a call of \<open>DrainQueue\<close> means for the system, given what the client answered: \<open>drained s answer r s'\<close> for the
  state before, the answer, the result of the call and the state after.
\<close>

definition drained :: "sys \<Rightarrow> error option outcome \<Rightarrow> int outcome \<Rightarrow> sys \<Rightarrow> bool" where
  "drained s answer r s' \<longleftrightarrow>
     s_taken s' = s_taken s
     \<and> (case answer of
          Ret None \<Rightarrow> is_ret r \<and> s_phase s' = Idle \<and> contents (s_queue s') = []
            \<and> s_sent s' = s_sent s @ contents (s_queue s) \<and> s_failed s' = s_failed s
        | Ret (Some e) \<Rightarrow> s_sent s' = s_sent s \<and> s_failed s'
            \<and> (if is_ret r then s_phase s' = Idle \<and> contents (s_queue s') = contents (s_queue s)
               else r = Hang \<and> stuck s')
        | Panic p \<Rightarrow> r = Panic p \<and> s_phase s' = Crashed (contents (s_queue s)) \<and> s_sent s' = s_sent s
        | Hang \<Rightarrow> r = Hang \<and> s_phase s' = Calling (contents (s_queue s)) \<and> s_sent s' = s_sent s)"

text \<open>
  C15. The sequential \<open>DrainQueue\<close> refines the transition system, whatever the client does. Every call hands everything
  queued to the client, once, and is a run from idle that ends with the queue the call leaves: without an error everything queued was handed over and nothing is
  left; after an error nothing was handed over and either every message is back in the queue, in order, or, when
  the call never returns, the consumer is stuck for ever; a panic leaves the consumer dead with the batch in its hands.
\<close>

theorem DrainQueue_refines:
  assumes "chan_open (s_queue s)" and "s_phase s = Idle" and "DrainQueue sc (w, s_queue s) = (r, (w', q'))"
  shows "\<exists>s'. steps s s' \<and> s_queue s' = q'
    \<and> drained s (fst (send_all_logs (sc_client sc) (contents (s_queue s)) w)) r s'
    \<and> w' = snd (send_all_logs (sc_client sc) (contents (s_queue s)) w)"
proof -
  let ?q = "s_queue s"
  let ?call = "s\<lparr>s_queue := emptied ?q, s_phase := Calling (contents ?q)\<rparr>"
  have "steps s (s\<lparr>s_phase := Receiving []\<rparr>)" using step.start [OF assms(2)] by blast
  moreover have "steps (s\<lparr>s_phase := Receiving []\<rparr>) ?call"
    using receive_run [of "s\<lparr>s_phase := Receiving []\<rparr>" "[]"] assms(1) by simp
  ultimately have run: "steps s ?call" by (rule rtranclp_trans)
  obtain answer w1 where sent: "send_all_logs (sc_client sc) (contents ?q) w = (answer, w1)" by fastforce
  have drain: "after_send (contents ?q) (done_flag (contents ?q)) ?q (answer, w1) = (r, (w', q'))"
    using assms(3) sent by (simp add: DrainQueue_eq [OF assms(1)])
  have "\<exists>s'. steps ?call s' \<and> s_queue s' = q' \<and> drained s answer r s'"
  proof (cases answer)
    case (Ret err)
    show ?thesis
    proof (cases err)
      case None
      have "step ?call (?call\<lparr>s_phase := Idle, s_sent := s_sent s @ contents ?q\<rparr>)" using step.succeed [of ?call] by simp
      with drain Ret None show ?thesis
        by (intro exI [of _ "?call\<lparr>s_phase := Idle, s_sent := s_sent s @ contents ?q\<rparr>"]) (auto simp: after_send_def drained_def)
    next
      case (Some e)
      let ?f = "?call\<lparr>s_phase := Requeueing (contents ?q), s_failed := True\<rparr>"
      have failed: "step ?call ?f" using step.fail [of ?call] by simp
      show ?thesis
      proof (cases "length (contents ?q) \<le> ch_cap ?q")
        case True
        with failed requeue_all_run(1) [OF assms(1), of ?f] have "steps ?call (?f\<lparr>s_queue := refilled (contents ?q) ?q, s_phase := Idle\<rparr>)"
          by (simp add: converse_rtranclp_into_rtranclp)
        with True drain Ret Some show ?thesis
          by (intro exI [of _ "?f\<lparr>s_queue := q', s_phase := Idle\<rparr>"]) (auto simp: after_send_def drained_def)
      next
        case False
        with requeue_all_run(2) [OF assms(1), of ?f "contents ?q"] obtain s' where s': "steps ?f s'" "stuck s'"
          "s_queue s' = refilled (take (ch_cap ?q) (contents ?q)) ?q" "s_taken s' = s_taken s" "s_sent s' = s_sent s" "s_failed s'" by auto
        from failed s'(1) have "steps ?call s'" by (rule converse_rtranclp_into_rtranclp)
        with s' False drain Ret Some show ?thesis by (intro exI [of _ s']) (auto simp: after_send_def drained_def)
      qed
    qed
  next
    case (Panic p)
    have "step ?call (?call\<lparr>s_phase := Crashed (contents ?q)\<rparr>)" using step.crash [of ?call] by simp
    with drain Panic show ?thesis
      by (intro exI [of _ "?call\<lparr>s_phase := Crashed (contents ?q)\<rparr>"]) (auto simp: after_send_def drained_def)
  next
    case Hang
    with drain show ?thesis by (intro exI [of _ ?call]) (auto simp: after_send_def drained_def)
  qed
  moreover have "w' = w1" using drain by (auto simp: after_send_def split: outcome.splits option.splits if_splits)
  ultimately show ?thesis using run sent by (metis fst_conv snd_conv rtranclp_trans)
qed

definition sample_sys :: sys where
  "sample_sys = \<lparr>s_queue = sample_queue [sample_payload] [], s_phase = Idle, s_taken = [sample_payload],
     s_sent = [], s_failed = False\<rparr>"

theorem DrainQueue_refines_witness:
  "\<exists>s'. steps sample_sys s' \<and> s_queue s' = sample_queue [] [] \<and> s_sent s' = [sample_payload]"
proof -
  let ?sc = "NewTaskConsumer sample_ext sample_cfg"
  have "fst (SendAllLogs sample_ext sample_client (contents (s_queue sample_sys)) sample_world) = Ret None"
    by code_simp
  then obtain w' where
    send: "SendAllLogs sample_ext sample_client (contents (s_queue sample_sys)) sample_world = (Ret None, w')"
    by (metis prod.collapse)
  have opened: "chan_open (s_queue sample_sys)" by code_simp
  have "emptied (s_queue sample_sys) = sample_queue [] []" by code_simp
  with send have drain: "DrainQueue ?sc (sample_world, s_queue sample_sys) =
      (Ret (done_flag (contents (s_queue sample_sys))), (w', sample_queue [] []))"
    by (simp add: DrainQueue_eq [OF opened] after_send_def sample_client_def)
  have "contents (s_queue sample_sys) = [sample_payload]" "s_sent sample_sys = []" "s_phase sample_sys = Idle" by code_simp+
  with DrainQueue_refines [OF opened _ drain] send show ?thesis
    by (auto simp: drained_def sample_client_def)
qed

end
