(* ===== verification/Managed_System.thy ===== *)
theory Managed_System
  imports Managed_Props "HOL-Library.Multiset"
begin

text \<open>
  The goroutines of the managed mode as a transition system: any number of handlers, each between its
  statements (the offer of the payload, the check of the threshold, one signal per report), interleaved
  with the statements of the consumer (the receive of a signal, single receives from the queue, the call of the client, the
  sends that put messages back). The call of the client has three steps, one per outcome: no error, an
  error, a panic, after which the consumer never runs again (nothing recovers it, so the program ends the whole process there).
  Which of them a real client takes is part of the refinement of \<open>managed_DrainQueue\<close> below. The program starts the
  consumer with a context that is never done, so there is no step for it.
\<close>

section \<open>States and steps\<close>

datatype handler =
    Offering bytes
  | Checking bytes
  | Reporting "Event list"

datatype mphase =
    Waiting
  | Draining "bytes list"
  | Sending "bytes list"
  | PuttingBack "bytes list"
  | Died "bytes list"

record msys =
  m_server :: managedInstanceHttpServer
  m_handlers :: "handler multiset"
  m_phase :: mphase
  m_taken :: "bytes list"
  m_sent :: "bytes list"
  m_dropped :: "bytes list"
  m_failed :: bool

abbreviation m_queue :: "msys \<Rightarrow> bytes chan" where
  "m_queue s \<equiv> dataQueue (m_server s)"

abbreviation m_signals :: "msys \<Rightarrow> string chan" where
  "m_signals s \<equiv> flushSignal (m_server s)"

definition set_queue :: "bytes chan \<Rightarrow> msys \<Rightarrow> msys" where
  "set_queue q s = s\<lparr>m_server := (m_server s)\<lparr>dataQueue := q\<rparr>\<rparr>"

definition parsed_events :: "bytes \<Rightarrow> Event list" where
  "parsed_events body = (case unmarshal_Events body of None \<Rightarrow> [] | Some events \<Rightarrow> events)"

inductive mstep :: "msys \<Rightarrow> msys \<Rightarrow> bool" where
  arrive: "in_path (rq :: http_in) = ''/'' \<Longrightarrow> in_method rq = ''POST'' \<Longrightarrow> in_err rq = None \<Longrightarrow>
    mstep s (s\<lparr>m_handlers := add_mset (Offering (in_body rq)) (m_handlers s), m_taken := m_taken s @ [in_body rq]\<rparr>)"
| queued: "m_handlers s = add_mset (Offering p) hs \<Longrightarrow> chan_send p (m_queue s) = (Ret Sent, q) \<Longrightarrow>
    mstep s (set_queue q s\<lparr>m_handlers := add_mset (Checking p) hs\<rparr>)"
| refused: "m_handlers s = add_mset (Offering p) hs \<Longrightarrow> chan_send p (m_queue s) = (Ret Full, q) \<Longrightarrow>
    mstep s (s\<lparr>m_handlers := add_mset (Checking p) hs, m_dropped := m_dropped s @ [p]\<rparr>)"
| check: "m_handlers s = add_mset (Checking p) hs \<Longrightarrow> checkQueueThreshold (m_server s) = (Ret (), mhs) \<Longrightarrow>
    mstep s (s\<lparr>m_server := mhs, m_handlers := add_mset (Reporting (parsed_events p)) hs\<rparr>)"
| report: "m_handlers s = add_mset (Reporting (e # es)) hs \<Longrightarrow> signal_reports [e] (m_server s) = (Ret (), mhs) \<Longrightarrow>
    mstep s (s\<lparr>m_server := mhs, m_handlers := add_mset (Reporting es) hs\<rparr>)"
| reply: "m_handlers s = add_mset (Reporting []) hs \<Longrightarrow> mstep s (s\<lparr>m_handlers := hs\<rparr>)"
| wake: "m_phase s = Waiting \<Longrightarrow> chan_recv [] (m_signals s) = Some (sig, c) \<Longrightarrow>
    mstep s (s\<lparr>m_server := (m_server s)\<lparr>flushSignal := c\<rparr>,
               m_phase := (if sig = ''queue_threshold'' \<or> sig = ''platform.report'' then Draining [] else Waiting)\<rparr>)"
| take: "m_phase s = Draining b \<Longrightarrow> chan_recv [] (m_queue s) = Some (v, q) \<Longrightarrow>
    mstep s (set_queue q s\<lparr>m_phase := Draining (b @ [v])\<rparr>)"
| no_more: "m_phase s = Draining b \<Longrightarrow> chan_recv [] (m_queue s) = None \<Longrightarrow>
    mstep s (s\<lparr>m_phase := (if length b > 0 then Sending b else Waiting)\<rparr>)"
| succeed: "m_phase s = Sending b \<Longrightarrow> mstep s (s\<lparr>m_phase := Waiting, m_sent := m_sent s @ b\<rparr>)"
| fail: "m_phase s = Sending b \<Longrightarrow> mstep s (s\<lparr>m_phase := PuttingBack b, m_failed := True\<rparr>)"
| crash: "m_phase s = Sending b \<Longrightarrow> mstep s (s\<lparr>m_phase := Died b\<rparr>)"
| put_back: "m_phase s = PuttingBack (m # ms) \<Longrightarrow> chan_send m (m_queue s) = (Ret Sent, q) \<Longrightarrow>
    mstep s (set_queue q s\<lparr>m_phase := PuttingBack ms\<rparr>)"
| put_drop: "m_phase s = PuttingBack (m # ms) \<Longrightarrow> chan_send m (m_queue s) = (Ret Full, q) \<Longrightarrow>
    mstep s (s\<lparr>m_phase := PuttingBack ms, m_dropped := m_dropped s @ [m]\<rparr>)"
| finish: "m_phase s = PuttingBack [] \<Longrightarrow> mstep s (s\<lparr>m_phase := Waiting\<rparr>)"

inductive_cases mstepE: "mstep s s'"

abbreviation msteps :: "msys \<Rightarrow> msys \<Rightarrow> bool" where
  "msteps \<equiv> mstep\<^sup>*\<^sup>*"

text \<open>The start: the data queue of capacity \<open>k\<close>, ten places for signals, nobody at work.\<close>

definition initial_msys :: "nat \<Rightarrow> msys" where
  "initial_msys k =
     \<lparr>m_server = \<lparr>dataQueue = \<lparr>ch_cap = k, ch_buf = [], ch_sendq = [], ch_closed = False\<rparr>,
                  flushSignal = \<lparr>ch_cap = 10, ch_buf = [], ch_sendq = [], ch_closed = False\<rparr>\<rparr>,
      m_handlers = {#}, m_phase = Waiting, m_taken = [], m_sent = [], m_dropped = [], m_failed = False\<rparr>"

section \<open>Channels without parked senders\<close>

definition plain :: "'a chan \<Rightarrow> bool" where
  "plain c \<longleftrightarrow> \<not> ch_closed c \<and> ch_sendq c = [] \<and> length (ch_buf c) \<le> ch_cap c"

lemma plain_open: "plain c \<Longrightarrow> chan_open c \<and> contents c = ch_buf c"
  by (simp add: plain_def chan_ok_def contents_def)

lemma plain_send:
  assumes "plain c"
  shows "chan_send v c = (Ret Sent, c') \<Longrightarrow> plain c' \<and> ch_buf c' = ch_buf c @ [v] \<and> ch_cap c' = ch_cap c"
    and "chan_send v c = (Ret Full, c') \<Longrightarrow> c' = c"
  using assms by (auto simp: plain_def chan_send_def split: if_splits)

lemma plain_recv:
  assumes "plain c"
  shows "chan_recv z c = Some (v, c') \<Longrightarrow> plain c' \<and> ch_buf c = v # ch_buf c' \<and> ch_cap c' = ch_cap c"
    and "chan_recv z c = None \<Longrightarrow> ch_buf c = []"
  using assms by (auto simp: plain_def chan_recv_def split: list.splits)

lemma plain_offer: "plain c \<Longrightarrow> plain (offer msgs c)"
  by (auto simp: plain_def offer_def)

lemma plain_recv_Cons: "plain c \<Longrightarrow> ch_buf c = v # vs \<Longrightarrow> chan_recv z c = Some (v, c\<lparr>ch_buf := vs\<rparr>)"
  by (simp add: plain_def chan_recv_def)

lemma plain_send_cases:
  assumes "plain c"
  obtains (sent) "chan_send m c = (Ret Sent, offer [m] c)"
  | (full) "chan_send m c = (Ret Full, c)" "offer [m] c = c"
proof (cases "length (ch_buf c) < ch_cap c")
  case True
  with assms have "chan_send m c = (Ret Sent, offer [m] c)" by (simp add: plain_def chan_send_def offer_def)
  then show ?thesis by (rule sent)
next
  case False
  with assms have "chan_send m c = (Ret Full, c)" "offer [m] c = c" by (cases c; simp add: plain_def chan_send_def offer_def)+
  then show ?thesis by (rule full)
qed

lemma offer_keeps: "plain c \<Longrightarrow> 0 < ch_cap c \<Longrightarrow> ch_buf c \<noteq> [] \<or> msgs \<noteq> [] \<Longrightarrow> ch_buf (offer msgs c) \<noteq> []"
  by (cases "ch_buf c") (auto simp: offer_def plain_def)

lemma offer_set: "set (ch_buf (offer msgs c)) \<subseteq> set (ch_buf c) \<union> set msgs"
  by (auto simp: offer_def dest: in_set_takeD)

section \<open>The invariant\<close>

fun offered_by :: "handler \<Rightarrow> bytes multiset" where
  "offered_by (Offering p) = {#p#}"
| "offered_by _ = {#}"

definition offered :: "handler multiset \<Rightarrow> bytes multiset" where
  "offered hs = (\<Sum>h \<in># hs. offered_by h)"

lemma offered_simps [simp]: "offered {#} = {#}" "offered (add_mset h hs) = offered_by h + offered hs"
  by (simp_all add: offered_def)

fun held :: "mphase \<Rightarrow> bytes list" where
  "held Waiting = []"
| "held (Draining b) = b"
| "held (Sending b) = b"
| "held (PuttingBack b) = b"
| "held (Died b) = b"

definition reports :: "Event list \<Rightarrow> bool" where
  "reports es \<longleftrightarrow> (\<exists>e \<in> set es. ev_Type e = ''platform.report'')"

lemma reports_Nil [simp]: "\<not> reports []"
  by (simp add: reports_def)

definition has_report :: "bytes \<Rightarrow> bool" where
  "has_report p = reports (parsed_events p)"

definition at_threshold :: "bytes chan \<Rightarrow> bool" where
  "at_threshold q \<longleftrightarrow> ch_buf q \<noteq> [] \<and> queueThreshold (chan_cap q) \<le> chan_len q"

text \<open>The phases in which the consumer relies on a signal for what is in the queue.\<close>

definition relies :: "msys \<Rightarrow> bool" where
  "relies s \<longleftrightarrow> \<not> m_failed s \<and> (m_phase s = Waiting \<or> (\<exists>b. m_phase s = Sending b))"

definition channels_ok :: "msys \<Rightarrow> bool" where
  "channels_ok s \<longleftrightarrow> plain (m_queue s) \<and> plain (m_signals s) \<and> 0 < ch_cap (m_signals s)
     \<and> set (ch_buf (m_signals s)) \<subseteq> {''queue_threshold'', ''platform.report''}"

definition conserved :: "msys \<Rightarrow> bool" where
  "conserved s \<longleftrightarrow>
     mset (m_taken s) = mset (m_sent s) + mset (m_dropped s) + mset (held (m_phase s))
       + mset (ch_buf (m_queue s)) + offered (m_handlers s)"

definition threshold_noticed :: "msys \<Rightarrow> bool" where
  "threshold_noticed s \<longleftrightarrow>
     (relies s \<and> at_threshold (m_queue s) \<longrightarrow>
        ch_buf (m_signals s) \<noteq> [] \<or> (\<exists>p. Checking p \<in># m_handlers s))"

definition reports_noticed :: "msys \<Rightarrow> bool" where
  "reports_noticed s \<longleftrightarrow>
     (\<forall>p \<in> set (ch_buf (m_queue s)). relies s \<and> has_report p \<longrightarrow>
        ch_buf (m_signals s) \<noteq> [] \<or> Checking p \<in># m_handlers s
        \<or> (\<exists>es. Reporting es \<in># m_handlers s \<and> reports es))"

definition minv :: "msys \<Rightarrow> bool" where
  "minv s \<longleftrightarrow> channels_ok s \<and> conserved s \<and> threshold_noticed s \<and> reports_noticed s
     \<and> (\<forall>b. m_phase s = PuttingBack b \<longrightarrow> m_failed s)"

lemmas minv_defs = minv_def channels_ok_def conserved_def threshold_noticed_def reports_noticed_def relies_def

lemma set_queue_simps [simp]:
  "m_queue (set_queue q s) = q" "m_signals (set_queue q s) = m_signals s" "m_handlers (set_queue q s) = m_handlers s"
  "m_phase (set_queue q s) = m_phase s" "m_taken (set_queue q s) = m_taken s" "m_sent (set_queue q s) = m_sent s"
  "m_dropped (set_queue q s) = m_dropped s" "m_failed (set_queue q s) = m_failed s"
  by (simp_all add: set_queue_def)

lemma minv_initial: "minv (initial_msys k)"
  by (simp add: minv_defs initial_msys_def plain_def at_threshold_def)

text \<open>What the two signalling steps of a handler do to the signal channel.\<close>

lemma check_signals:
  assumes "channels_ok s" and "checkQueueThreshold (m_server s) = (Ret (), mhs)"
  shows "dataQueue mhs = m_queue s" and "plain (flushSignal mhs)" and "ch_cap (flushSignal mhs) = ch_cap (m_signals s)"
    and "set (ch_buf (flushSignal mhs)) \<subseteq> insert ''queue_threshold'' (set (ch_buf (m_signals s)))"
    and "ch_buf (m_signals s) \<noteq> [] \<or> at_threshold (m_queue s) \<Longrightarrow> ch_buf (flushSignal mhs) \<noteq> []"
proof -
  let ?t = "if chan_len (m_queue s) \<ge> queueThreshold (chan_cap (m_queue s)) then [''queue_threshold''] else []"
  have sig: "plain (m_signals s)" "0 < ch_cap (m_signals s)" using assms(1) by (simp_all add: channels_ok_def)
  have mhs: "mhs = (m_server s)\<lparr>flushSignal := offer ?t (m_signals s)\<rparr>"
    using checkQueueThreshold_offer [of "m_server s"] plain_open [OF sig(1)] assms(2) by simp
  show "dataQueue mhs = m_queue s" "plain (flushSignal mhs)" "ch_cap (flushSignal mhs) = ch_cap (m_signals s)"
    using sig by (simp_all add: mhs plain_offer)
  show "set (ch_buf (flushSignal mhs)) \<subseteq> insert ''queue_threshold'' (set (ch_buf (m_signals s)))"
    using offer_set [of ?t "m_signals s"] by (auto simp: mhs split: if_splits)
  show "ch_buf (flushSignal mhs) \<noteq> []" if "ch_buf (m_signals s) \<noteq> [] \<or> at_threshold (m_queue s)"
    using that offer_keeps [OF sig, of ?t] by (auto simp: mhs at_threshold_def)
qed

lemma report_signal:
  assumes "channels_ok s" and "signal_reports [e] (m_server s) = (Ret (), mhs)"
  shows "dataQueue mhs = m_queue s" and "plain (flushSignal mhs)" and "ch_cap (flushSignal mhs) = ch_cap (m_signals s)"
    and "set (ch_buf (flushSignal mhs)) \<subseteq> insert ''platform.report'' (set (ch_buf (m_signals s)))"
    and "ch_buf (m_signals s) \<noteq> [] \<or> reports [e] \<Longrightarrow> ch_buf (flushSignal mhs) \<noteq> []"
proof -
  let ?t = "report_signals [e]"
  have sig: "plain (m_signals s)" "0 < ch_cap (m_signals s)" using assms(1) by (simp_all add: channels_ok_def)
  have mhs: "mhs = (m_server s)\<lparr>flushSignal := offer ?t (m_signals s)\<rparr>"
    using signal_reports_offer [of "m_server s" "[e]"] plain_open [OF sig(1)] assms(2) by simp
  show "dataQueue mhs = m_queue s" "plain (flushSignal mhs)" "ch_cap (flushSignal mhs) = ch_cap (m_signals s)"
    using sig by (simp_all add: mhs plain_offer)
  show "set (ch_buf (flushSignal mhs)) \<subseteq> insert ''platform.report'' (set (ch_buf (m_signals s)))"
    using offer_set [of ?t "m_signals s"] by (auto simp: mhs report_signals_def)
  show "ch_buf (flushSignal mhs) \<noteq> []" if "ch_buf (m_signals s) \<noteq> [] \<or> reports [e]"
    using that offer_keeps [OF sig, of ?t] by (auto simp: mhs reports_def report_signals_def)
qed

lemma minv_step: "mstep s s' \<Longrightarrow> minv s \<Longrightarrow> minv s'"
proof (induction rule: mstep.induct)
  case (arrive rq s)
  then show ?case by (auto simp: minv_defs)
next
  case (queued s p hs q)
  then have "plain (m_queue s)" by (simp add: minv_defs)
  from plain_send(1) [OF this queued(2)] queued(1,3) show ?case by (auto simp: minv_defs)
next
  case (refused s p hs q)
  then show ?case by (auto simp: minv_defs)
next
  case (check s p hs mhs)
  let ?s = "s\<lparr>m_server := mhs, m_handlers := add_mset (Reporting (parsed_events p)) hs\<rparr>"
  from check have ok: "channels_ok s" by (simp add: minv_def)
  note sg = check_signals [OF ok check(2)]
  have "channels_ok ?s"
    using ok sg(1-4) by (auto simp: channels_ok_def)
  moreover have "reports_noticed ?s"
    unfolding reports_noticed_def
  proof (intro ballI impI)
    fix v assume "v \<in> set (ch_buf (m_queue ?s))"
      and "relies ?s \<and> has_report v"
    then have "v \<in> set (ch_buf (m_queue s))" "relies s" "has_report v" using sg(1) by (simp_all add: relies_def)
    with check(1,3) sg(5) show "ch_buf (m_signals ?s) \<noteq> []
        \<or> Checking v \<in># m_handlers ?s
        \<or> (\<exists>es. Reporting es \<in># m_handlers ?s \<and> reports es)"
      by (auto simp: minv_def reports_noticed_def has_report_def)
  qed
  ultimately show ?case using check(1,3) sg(1,5)
    by (auto simp: minv_def conserved_def threshold_noticed_def relies_def)
next
  case (report s e es hs mhs)
  then have ok: "channels_ok s" by (simp add: minv_def)
  note sg = report_signal [OF ok report(2)]
  have "channels_ok (s\<lparr>m_server := mhs, m_handlers := add_mset (Reporting es) hs\<rparr>)"
    using ok sg(1-4) by (auto simp: channels_ok_def)
  moreover have "reports_noticed (s\<lparr>m_server := mhs, m_handlers := add_mset (Reporting es) hs\<rparr>)"
    using report(1,3) sg(1,5) by (fastforce simp: minv_def reports_noticed_def reports_def relies_def)
  ultimately show ?case using report(1,3) sg(1,5)
    by (auto simp: minv_def conserved_def threshold_noticed_def relies_def)
next
  case (wake s sig c)
  then have "plain (m_signals s)" by (simp add: minv_defs)
  from plain_recv(1) [OF this wake(2)] wake(1,3) show ?case by (auto simp: minv_defs)
next
  case (take s b v q)
  then have "plain (m_queue s)" by (simp add: minv_defs)
  from plain_recv(1) [OF this take(2)] take(1,3) show ?case by (auto simp: minv_defs)
next
  case (no_more s b)
  then have "plain (m_queue s)" by (simp add: minv_defs)
  from plain_recv(2) [OF this no_more(2)] no_more(1,3) show ?case by (auto simp: minv_defs at_threshold_def)
next
  case (put_back s m ms q)
  then have "plain (m_queue s)" by (simp add: minv_defs)
  from plain_send(1) [OF this put_back(2)] put_back(1,3) show ?case by (auto simp: minv_defs)
qed (auto simp: minv_defs)

lemma minv_steps: "msteps s s' \<Longrightarrow> minv s \<Longrightarrow> minv s'"
  by (induction rule: rtranclp_induct) (auto intro: minv_step)

section \<open>The sequential operations as runs\<close>

lemma report_run:
  "channels_ok s \<Longrightarrow> m_handlers s = add_mset (Reporting es) hs \<Longrightarrow> signal_reports es (m_server s) = (Ret (), mhs) \<Longrightarrow>
     msteps s (s\<lparr>m_server := mhs, m_handlers := hs\<rparr>)"
proof (induction es arbitrary: s)
  case Nil
  with mstep.reply [of s hs] show ?case by (auto intro: r_into_rtranclp)
next
  case (Cons e es)
  have sig: "chan_open (m_signals s)" using Cons.prems(1) plain_open [of "m_signals s"] by (simp add: channels_ok_def)
  obtain mhs1 where one: "signal_reports [e] (m_server s) = (Ret (), mhs1)"
    using signal_reports_offer [OF sig, of "[e]"] by blast
  let ?s = "s\<lparr>m_server := mhs1, m_handlers := add_mset (Reporting es) hs\<rparr>"
  have "channels_ok ?s" using report_signal [OF Cons.prems(1) one] Cons.prems(1) by (auto simp: channels_ok_def)
  moreover have "signal_reports es (m_server ?s) = (Ret (), mhs)"
    using Cons.prems(3) one by (auto simp: bindA_def split: prod.splits outcome.splits if_splits)
  ultimately have "msteps ?s (?s\<lparr>m_server := mhs, m_handlers := hs\<rparr>)" by (intro Cons.IH) simp_all
  moreover have "mstep s ?s" by (rule mstep.report [OF Cons.prems(2) one])
  ultimately show ?case by (simp add: converse_rtranclp_into_rtranclp)
qed

lemma take_run:
  "plain (m_queue s) \<Longrightarrow> m_phase s = Draining b \<Longrightarrow>
     msteps s (set_queue (emptied (m_queue s)) s
       \<lparr>m_phase := (if length (b @ ch_buf (m_queue s)) > 0 then Sending (b @ ch_buf (m_queue s)) else Waiting)\<rparr>)"
proof (induction "ch_buf (m_queue s)" arbitrary: s b)
  case Nil
  then have recv: "chan_recv [] (m_queue s) = None" by (simp add: chan_recv_None plain_def contents_def)
  have "set_queue (emptied (m_queue s)) s = s"
    using Nil(1,2) by (simp add: set_queue_def emptied_self plain_open)
  with mstep.no_more [OF Nil(3) recv] Nil(1) [symmetric] show ?case
    by (simp only: append_Nil2 r_into_rtranclp)
next
  case (Cons v vs)
  let ?q = "m_queue s\<lparr>ch_buf := vs\<rparr>"
  obtain q where q_def: "q = ?q" by simp
  have recv: "chan_recv [] (m_queue s) = Some (v, q)"
    using plain_recv_Cons [OF Cons.prems(1) Cons.hyps(2) [symmetric]] by (simp add: q_def)
  have q: "plain q" "ch_buf q = vs" "emptied q = emptied (m_queue s)"
    using plain_recv(1) [OF Cons.prems(1) recv] by (simp_all add: q_def emptied_def)
  let ?s = "set_queue q s\<lparr>m_phase := Draining (b @ [v])\<rparr>"
  have eq: "set_queue (emptied (m_queue ?s)) ?s = set_queue (emptied (m_queue s)) s\<lparr>m_phase := Draining (b @ [v])\<rparr>"
    using q(3) by (simp add: set_queue_def)
  have "msteps ?s (set_queue (emptied (m_queue ?s)) ?s
      \<lparr>m_phase := (if length ((b @ [v]) @ ch_buf (m_queue ?s)) > 0 then Sending ((b @ [v]) @ ch_buf (m_queue ?s)) else Waiting)\<rparr>)"
    using q by (intro Cons.hyps(1)) simp_all
  then have "msteps ?s (set_queue (emptied (m_queue s)) s
      \<lparr>m_phase := (if length (b @ ch_buf (m_queue s)) > 0 then Sending (b @ ch_buf (m_queue s)) else Waiting)\<rparr>)"
    unfolding eq using q(2) Cons.hyps(2) [symmetric] by (simp add: set_queue_def)
  with mstep.take [OF Cons.prems(2) recv] show ?case by (rule converse_rtranclp_into_rtranclp)
qed

lemma put_back_run:
  "plain (m_queue s) \<Longrightarrow> m_phase s = PuttingBack ms \<Longrightarrow> length ms \<le> room (m_queue s) \<Longrightarrow>
     msteps s (set_queue (offer ms (m_queue s)) s\<lparr>m_phase := Waiting\<rparr>)"
proof (induction ms arbitrary: s)
  case Nil
  then have "set_queue (offer [] (m_queue s)) s = s" by (simp add: set_queue_def offer_Nil plain_open)
  then show ?case using mstep.finish [OF Nil(2)] by (metis r_into_rtranclp)
next
  case (Cons m ms)
  from Cons.prems(1) show ?case
  proof (cases rule: plain_send_cases [of _ m])
    case sent
    let ?s = "set_queue (offer [m] (m_queue s)) s\<lparr>m_phase := PuttingBack ms\<rparr>"
    have "plain (m_queue ?s)" "length ms \<le> room (m_queue ?s)"
      using Cons.prems(1,3) plain_offer [of "m_queue s" "[m]"] by (simp_all add: offer_def room_def)
    with Cons.IH [of ?s] have "msteps ?s (set_queue (offer (m # ms) (m_queue s)) s\<lparr>m_phase := Waiting\<rparr>)"
      by (simp add: offer_offer set_queue_def)
    with mstep.put_back [OF Cons.prems(2) sent] show ?thesis by (rule converse_rtranclp_into_rtranclp)
  next
    case full
    with Cons.prems(1,3) show ?thesis by (auto simp: chan_send_def room_def plain_def split: if_splits)
  qed
qed

section \<open>Properties\<close>

text \<open>
  C12. Conservation in managed mode, under every interleaving of handlers and consumer: each payload that
  arrived is exactly once among those handed to the client without error, those the consumer holds, those
  queued, those a handler is about to offer, and those dropped because the queue was full. The queue never
  exceeds its capacity and no goroutine is ever parked on it.
\<close>

theorem managed_messages_conserved:
  assumes "msteps (initial_msys k) s"
  shows "mset (m_taken s) = mset (m_sent s) + mset (m_dropped s) + mset (held (m_phase s))
      + mset (ch_buf (m_queue s)) + offered (m_handlers s)
    \<and> length (ch_buf (m_queue s)) \<le> ch_cap (m_queue s) \<and> ch_sendq (m_queue s) = []"
  using minv_steps [OF assms minv_initial] by (simp add: minv_def conserved_def channels_ok_def plain_def)

text \<open>
  C5. No lost wake-up. As long as no send has failed, whenever the consumer waits with no signal pending and no
  handler is at work, the queue is below its threshold and holds no payload with a \<open>platform.report\<close> event: whatever
  the order in which handlers check, signal and the consumer drains, and although signals are dropped when
  their channel is full, data that asks for a flush is never left behind.
\<close>

theorem no_lost_wakeup:
  assumes "msteps (initial_msys k) s" and "m_handlers s = {#}" and "m_phase s = Waiting"
    and "ch_buf (m_signals s) = []" and "\<not> m_failed s"
  shows "\<not> at_threshold (m_queue s) \<and> list_all (\<lambda>p. \<not> has_report p) (ch_buf (m_queue s))"
  using minv_steps [OF assms(1) minv_initial] assms(2-5)
  by (auto simp: minv_def threshold_noticed_def reports_noticed_def relies_def list_all_iff)

text \<open>
  C17. The handler refines the transition system: a POST request that is handled without interruption is a run
  that takes the payload, leaves both channels as \<open>managed_logsHandler\<close> does, and ends with the same handlers at work.
\<close>

theorem managed_logsHandler_refines:
  assumes "channels_ok s" and "in_path rq = ''/''" and "in_method rq = ''POST''" and "in_err rq = None"
    and "managed_logsHandler rq (m_server s) = (Ret code, mhs)"
  shows "\<exists>s'. msteps s s' \<and> m_server s' = mhs \<and> m_handlers s' = m_handlers s \<and> m_phase s' = m_phase s
    \<and> m_taken s' = m_taken s @ [in_body rq] \<and> m_sent s' = m_sent s \<and> code = 200"
proof -
  let ?p = "in_body rq" and ?hs = "m_handlers s"
  have plain: "plain (m_queue s)" "plain (m_signals s)" using assms(1) by (simp_all add: channels_ok_def)
  let ?s1 = "s\<lparr>m_handlers := add_mset (Offering ?p) ?hs, m_taken := m_taken s @ [?p]\<rparr>"
  have one: "mstep s ?s1" by (rule mstep.arrive [OF assms(2-4)])
  have "\<exists>d. mstep ?s1 (set_queue (offer [?p] (m_queue s)) ?s1\<lparr>m_handlers := add_mset (Checking ?p) ?hs, m_dropped := d\<rparr>)"
    using plain(1)
  proof (cases rule: plain_send_cases [of _ ?p])
    case sent
    with mstep.queued [of ?s1 ?p ?hs] show ?thesis by (intro exI [of _ "m_dropped s"]) (simp add: set_queue_def)
  next
    case full
    with mstep.refused [of ?s1 ?p ?hs] show ?thesis
      by (intro exI [of _ "m_dropped s @ [?p]"]) (simp add: set_queue_def)
  qed
  then obtain d where two: "mstep ?s1 (set_queue (offer [?p] (m_queue s)) ?s1\<lparr>m_handlers := add_mset (Checking ?p) ?hs, m_dropped := d\<rparr>)" ..
  let ?s2 = "set_queue (offer [?p] (m_queue s)) ?s1\<lparr>m_handlers := add_mset (Checking ?p) ?hs, m_dropped := d\<rparr>"
  have ok2: "channels_ok ?s2" using assms(1) by (simp add: channels_ok_def plain_offer set_queue_def)
  obtain mhs1 where check: "checkQueueThreshold (m_server ?s2) = (Ret (), mhs1)"
    using checkQueueThreshold_offer [of "m_server ?s2"] plain_open [OF plain(2)] by (simp add: set_queue_def)
  let ?s3 = "?s2\<lparr>m_server := mhs1, m_handlers := add_mset (Reporting (parsed_events ?p)) ?hs\<rparr>"
  have three: "mstep ?s2 ?s3" by (rule mstep.check [OF _ check]) (simp add: set_queue_def)
  have ok3: "channels_ok ?s3" using check_signals [OF ok2 check] ok2 by (auto simp: channels_ok_def)
  have "try_send ?p (m_queue s) = (Ret (), offer [?p] (m_queue s))"
    using plain_open [OF plain(1)] by (simp add: try_send_def try_requeue_offer del: try_requeue.simps)
  with assms(2-5) check have reports: "signal_reports (parsed_events ?p) (m_server ?s3) = (Ret (), mhs)" and "code = 200"
    by (auto simp: managed_logsHandler_def bindA_def returnA_def parsed_events_def set_queue_def
        split: prod.splits outcome.splits option.splits)
  from report_run [OF ok3 _ reports, of ?hs] have "msteps ?s3 (?s3\<lparr>m_server := mhs, m_handlers := ?hs\<rparr>)" by simp
  with one two three have "msteps s (?s3\<lparr>m_server := mhs, m_handlers := ?hs\<rparr>)"
    by (meson converse_rtranclp_into_rtranclp)
  with \<open>code = 200\<close> show ?thesis by (intro exI [of _ "?s3\<lparr>m_server := mhs, m_handlers := ?hs\<rparr>"]) (simp add: set_queue_def)
qed

definition sample_msys :: msys where
  "sample_msys = initial_msys 5"

definition sample_msys_post :: http_in where
  "sample_msys_post = \<lparr>in_path = ''/'', in_method = ''POST'', in_body = ''[]'', in_err = None\<rparr>"

lemma sample_msys_ok: "channels_ok sample_msys" "m_handlers sample_msys = {#}" "m_phase sample_msys = Waiting"
  "m_failed sample_msys = False" "m_taken sample_msys = []"
  by (simp_all add: sample_msys_def initial_msys_def channels_ok_def plain_def)

lemma sample_msys_handled:
  "managed_logsHandler sample_msys_post (m_server sample_msys) =
     (Ret 200, \<lparr>dataQueue = \<lparr>ch_cap = 5, ch_buf = [''[]''], ch_sendq = [], ch_closed = False\<rparr>,
                flushSignal = \<lparr>ch_cap = 10, ch_buf = [], ch_sendq = [], ch_closed = False\<rparr>\<rparr>)"
proof -
  have "m_server sample_msys = \<lparr>dataQueue = \<lparr>ch_cap = 5, ch_buf = [], ch_sendq = [], ch_closed = False\<rparr>,
      flushSignal = \<lparr>ch_cap = 10, ch_buf = [], ch_sendq = [], ch_closed = False\<rparr>\<rparr>"
    by (simp add: sample_msys_def initial_msys_def)
  moreover have "managed_logsHandler sample_msys_post
      \<lparr>dataQueue = \<lparr>ch_cap = 5, ch_buf = [], ch_sendq = [], ch_closed = False\<rparr>,
       flushSignal = \<lparr>ch_cap = 10, ch_buf = [], ch_sendq = [], ch_closed = False\<rparr>\<rparr> =
     (Ret 200, \<lparr>dataQueue = \<lparr>ch_cap = 5, ch_buf = [''[]''], ch_sendq = [], ch_closed = False\<rparr>,
                flushSignal = \<lparr>ch_cap = 10, ch_buf = [], ch_sendq = [], ch_closed = False\<rparr>\<rparr>)"
    by code_simp
  ultimately show ?thesis by simp
qed

theorem managed_logsHandler_refines_witness:
  "\<exists>s'. msteps sample_msys s' \<and> ch_buf (m_queue s') = [''[]''] \<and> m_handlers s' = {#} \<and> m_taken s' = [''[]'']"
proof -
  have "in_path sample_msys_post = ''/''" "in_method sample_msys_post = ''POST''" "in_err sample_msys_post = None"
    "in_body sample_msys_post = ''[]''" by (simp_all add: sample_msys_post_def)
  with managed_logsHandler_refines [OF sample_msys_ok(1) _ _ _ sample_msys_handled] sample_msys_ok
  show ?thesis by fastforce
qed

text \<open>A state reached by one request: the queue is below its threshold and nobody is at work.\<close>

definition quiet :: msys where
  "quiet = \<lparr>m_server = \<lparr>dataQueue = \<lparr>ch_cap = 5, ch_buf = [''[]''], ch_sendq = [], ch_closed = False\<rparr>,
                         flushSignal = \<lparr>ch_cap = 10, ch_buf = [], ch_sendq = [], ch_closed = False\<rparr>\<rparr>,
     m_handlers = {#}, m_phase = Waiting, m_taken = [''[]''], m_sent = [], m_dropped = [], m_failed = False\<rparr>"

text \<open>Single steps on concrete states: one request up to its reply.\<close>

lemma parsed_events_empty: "parsed_events ''[]'' = []"
  by code_simp

lemma request_run:
  assumes "m_handlers s = {#}" and "plain (m_queue s)" and "length (ch_buf (m_queue s)) < ch_cap (m_queue s)"
    and "checkQueueThreshold ((m_server s)\<lparr>dataQueue := offer [''[]''] (m_queue s)\<rparr>) = (Ret (), mhs)"
  shows "msteps s (s\<lparr>m_server := mhs, m_taken := m_taken s @ [''[]'']\<rparr>)"
proof -
  let ?s1 = "s\<lparr>m_handlers := {#Offering ''[]''#}, m_taken := m_taken s @ [''[]'']\<rparr>"
  let ?s2 = "set_queue (offer [''[]''] (m_queue s)) ?s1\<lparr>m_handlers := {#Checking ''[]''#}\<rparr>"
  let ?s3 = "?s2\<lparr>m_server := mhs, m_handlers := {#Reporting []#}\<rparr>"
  have "msteps s ?s1"
    using mstep.arrive [of sample_msys_post s] assms(1) by (simp add: sample_msys_post_def r_into_rtranclp)
  also have "mstep ?s1 ?s2"
  proof (rule mstep.queued)
    show "chan_send ''[]'' (m_queue ?s1) = (Ret Sent, offer [''[]''] (m_queue s))"
      using assms(2,3) by (simp add: chan_send_def offer_def plain_def)
  qed simp
  also have "mstep ?s2 ?s3"
    using mstep.check [of ?s2 "''[]''" "{#}" mhs] assms(4) by (simp add: parsed_events_empty set_queue_def)
  also have "mstep ?s3 (?s3\<lparr>m_handlers := {#}\<rparr>)" by (rule mstep.reply) simp
  finally have "msteps s (?s3\<lparr>m_handlers := {#}\<rparr>)" .
  moreover have "?s3\<lparr>m_handlers := {#}\<rparr> = s\<lparr>m_server := mhs, m_taken := m_taken s @ [''[]'']\<rparr>"
    using assms(1) by (cases s) (simp add: set_queue_def)
  ultimately show ?thesis by (simp only:)
qed

lemma quiet_reached: "msteps (initial_msys 5) quiet"
proof -
  let ?s = "initial_msys 5"
  have "checkQueueThreshold \<lparr>dataQueue = \<lparr>ch_cap = 5, ch_buf = [''[]''], ch_sendq = [], ch_closed = False\<rparr>,
      flushSignal = \<lparr>ch_cap = 10, ch_buf = [], ch_sendq = [], ch_closed = False\<rparr>\<rparr> = (Ret (), m_server quiet)"
    by code_simp
  then have "msteps ?s (?s\<lparr>m_server := m_server quiet, m_taken := m_taken ?s @ [''[]'']\<rparr>)"
    by (intro request_run) (simp_all add: initial_msys_def plain_def offer_def)
  then show ?thesis by (simp add: initial_msys_def quiet_def)
qed

theorem managed_messages_conserved_witness:
  "mset (m_taken quiet) = mset (m_sent quiet) + mset (m_dropped quiet) + mset (ch_buf (m_queue quiet))"
  using managed_messages_conserved [OF quiet_reached] by (simp add: quiet_def)

theorem no_lost_wakeup_witness: "ch_buf (m_queue quiet) = [''[]''] \<and> \<not> at_threshold (m_queue quiet)"
  using no_lost_wakeup [OF quiet_reached] by (simp add: quiet_def)

text \<open>
  What a call of \<open>managed_DrainQueue\<close> means for the system. With a batch \<open>b\<close>, \<open>m_called s b answer r s'\<close> relates the
  state before, what the client answered, the result of the call and the state after.
\<close>

definition m_called :: "msys \<Rightarrow> bytes list \<Rightarrow> error option outcome \<Rightarrow> int outcome \<Rightarrow> msys \<Rightarrow> bool" where
  "m_called s b answer r s' \<longleftrightarrow>
     (case answer of
        Ret None \<Rightarrow> r = Ret 0 \<and> m_phase s' = Waiting \<and> ch_buf (m_queue s') = []
          \<and> m_sent s' = m_sent s @ b \<and> m_failed s' = m_failed s
      | Ret (Some e) \<Rightarrow> r = Ret 0 \<and> m_phase s' = Waiting \<and> ch_buf (m_queue s') = b \<and> m_sent s' = m_sent s \<and> m_failed s'
      | Panic p \<Rightarrow> r = Panic p \<and> m_phase s' = Died b \<and> m_sent s' = m_sent s
      | Hang \<Rightarrow> r = Hang \<and> m_phase s' = Sending b \<and> m_sent s' = m_sent s)"

definition m_undisturbed :: "msys \<Rightarrow> msys \<Rightarrow> bool" where
  "m_undisturbed s s' \<longleftrightarrow>
     m_signals s' = m_signals s \<and> m_handlers s' = m_handlers s \<and> m_taken s' = m_taken s \<and> m_dropped s' = m_dropped s"

definition m_drained :: "msys \<Rightarrow> error option outcome \<Rightarrow> int outcome \<Rightarrow> msys \<Rightarrow> bool" where
  "m_drained s answer r s' \<longleftrightarrow> m_undisturbed s s'
     \<and> (if ch_buf (m_queue s) = [] then r = Ret 0 \<and> s' = s\<lparr>m_phase := Waiting\<rparr>
        else m_called s (ch_buf (m_queue s)) answer r s')"

lemma m_drained_call:
  assumes "plain q" and "ch_buf q = b" and "m_queue s = emptied q" and "m_phase s = Sending b"
    and "after_try b (0 :: int) q (answer, w1) = (r, (w', q'))"
  shows "\<exists>s'. msteps s s' \<and> m_queue s' = q' \<and> m_undisturbed s s' \<and> m_called s b answer r s'"
proof (cases answer)
  case (Ret err)
  show ?thesis
  proof (cases err)
    case None
    then have after: "q' = emptied q" "ch_buf q' = []" "r = Ret 0" using Ret assms(5) by (auto simp: after_try_def)
    have "mstep s (s\<lparr>m_phase := Waiting, m_sent := m_sent s @ b\<rparr>)" by (rule mstep.succeed [OF assms(4)])
    with Ret None assms(3) after show ?thesis
      by (intro exI [of _ "s\<lparr>m_phase := Waiting, m_sent := m_sent s @ b\<rparr>"]) (auto simp: after_try_def m_called_def m_undisturbed_def)
  next
    case (Some e)
    let ?f = "s\<lparr>m_phase := PuttingBack b, m_failed := True\<rparr>"
    have all: "take (ch_cap q) b = b" "length b \<le> ch_cap q" using assms(1,2) by (auto simp: plain_def)
    then have q': "q' = refilled b q" "r = Ret 0" using Ret Some assms(5) by (auto simp: after_try_def)
    have "plain (emptied q)" using assms(1) by (simp add: plain_def)
    then have "msteps ?f (set_queue (offer b (emptied q)) ?f\<lparr>m_phase := Waiting\<rparr>)"
      using put_back_run [of ?f b] assms(3) all(2) by simp
    moreover have "offer b (emptied q) = q'" using all(1) by (simp add: q' offer_def refilled_def)
    ultimately have "msteps s (set_queue q' ?f\<lparr>m_phase := Waiting\<rparr>)"
      using mstep.fail [OF assms(4)] by (simp add: converse_rtranclp_into_rtranclp)
    with Ret Some q' show ?thesis by (intro exI [of _ "set_queue q' ?f\<lparr>m_phase := Waiting\<rparr>"])
        (simp add: set_queue_def m_called_def m_undisturbed_def)
  qed
next
  case (Panic p)
  have "mstep s (s\<lparr>m_phase := Died b\<rparr>)" by (rule mstep.crash [OF assms(4)])
  with Panic assms(3,5) show ?thesis by (intro exI [of _ "s\<lparr>m_phase := Died b\<rparr>"]) (auto simp: after_try_def m_called_def m_undisturbed_def)
next
  case Hang
  with assms(3-5) show ?thesis by (intro exI [of _ s]) (auto simp: after_try_def m_called_def m_undisturbed_def)
qed

text \<open>
  C16. A drain refines the transition system, whatever the client does. A call of \<open>managed_DrainQueue\<close> is a run of the
  consumer from the receive of a signal that ends with the queue the call leaves, touches no signal and no
  handler and drops nothing. With an empty queue the client is not called. Otherwise the whole batch goes to the
  client once: without an error it was handed over and the queue is empty; after an error nothing was handed over and the
  batch is back in the queue, in order; after a panic the consumer is dead with the batch in its hands.
\<close>

theorem managed_DrainQueue_refines:
  assumes "plain (m_queue s)" and "m_phase s = Draining []"
    and "managed_DrainQueue esc (w, m_queue s) = (r, (w', q'))"
  shows "\<exists>s'. msteps s s' \<and> m_queue s' = q'
    \<and> m_drained s (fst (send_all_logs (esc_client esc) (ch_buf (m_queue s)) w)) r s'
    \<and> w' = (if ch_buf (m_queue s) = [] then w else snd (send_all_logs (esc_client esc) (ch_buf (m_queue s)) w))"
proof (cases "ch_buf (m_queue s) = []")
  case True
  let ?q = "m_queue s"
  have open_q: "chan_open ?q" "contents ?q = []" using plain_open [OF assms(1)] True by simp_all
  then have "q' = ?q" "r = Ret 0" "w' = w" using assms(3) by (simp_all add: managed_DrainQueue_eq)
  moreover have "set_queue (emptied ?q) s = s" using open_q(2) by (simp add: set_queue_def emptied_self)
  moreover have "msteps s (set_queue (emptied ?q) s\<lparr>m_phase := Waiting\<rparr>)" using take_run [OF assms(1,2)] True by simp
  ultimately show ?thesis using True by (intro exI [of _ "s\<lparr>m_phase := Waiting\<rparr>"]) (simp add: m_drained_def m_undisturbed_def)
next
  case False
  let ?q = "m_queue s"
  let ?call = "set_queue (emptied ?q) s\<lparr>m_phase := Sending (ch_buf ?q)\<rparr>"
  have run: "msteps s ?call" using take_run [OF assms(1,2)] False by simp
  obtain answer w1 where sent: "send_all_logs (esc_client esc) (ch_buf ?q) w = (answer, w1)" by fastforce
  have drain: "after_try (ch_buf ?q) 0 ?q (answer, w1) = (r, (w', q'))"
    using assms(3) sent False plain_open [OF assms(1)] by (simp add: managed_DrainQueue_eq)
  then have "w' = w1" by (auto simp: after_try_def split: outcome.splits option.splits)
  from m_drained_call [OF assms(1) refl _ _ drain, of ?call] obtain s' where s': "msteps ?call s'" "m_queue s' = q'"
    "m_undisturbed ?call s'" "m_called ?call (ch_buf ?q) answer r s'" by auto
  have "m_undisturbed s s'" "m_called s (ch_buf ?q) answer r s'"
    using s'(3,4) by (auto simp: m_undisturbed_def m_called_def set_queue_def split: outcome.splits option.splits)
  then have "m_drained s answer r s'" using False by (simp add: m_drained_def)
  from run s'(1) have "msteps s s'" by (rule rtranclp_trans)
  with s'(2) \<open>m_drained s answer r s'\<close> sent False \<open>w' = w1\<close> show ?thesis by auto
qed

text \<open>The run to a batch that waits: one place, one request, and a send that fails.\<close>

definition one_chan :: "bytes list \<Rightarrow> bytes chan" where
  "one_chan b = \<lparr>ch_cap = 1, ch_buf = b, ch_sendq = [], ch_closed = False\<rparr>"

definition sig_chan :: "string list \<Rightarrow> string chan" where
  "sig_chan b = \<lparr>ch_cap = 10, ch_buf = b, ch_sendq = [], ch_closed = False\<rparr>"

definition one_msys :: "bytes list \<Rightarrow> string list \<Rightarrow> mphase \<Rightarrow> bool \<Rightarrow> msys" where
  "one_msys b sg ph f = \<lparr>m_server = \<lparr>dataQueue = one_chan b, flushSignal = sig_chan sg\<rparr>, m_handlers = {#},
     m_phase = ph, m_taken = [''[]''], m_sent = [], m_dropped = [], m_failed = f\<rparr>"

lemmas one_defs = one_msys_def one_chan_def sig_chan_def

lemma one_signalled: "msteps (initial_msys 1) (one_msys [''[]''] [''queue_threshold''] Waiting False)"
proof -
  let ?s = "initial_msys 1"
  let ?mhs = "\<lparr>dataQueue = one_chan [''[]''], flushSignal = sig_chan [''queue_threshold'']\<rparr>"
  have "checkQueueThreshold \<lparr>dataQueue = one_chan [''[]''], flushSignal = sig_chan []\<rparr> = (Ret (), ?mhs)"
    by code_simp
  then have "msteps ?s (?s\<lparr>m_server := ?mhs, m_taken := m_taken ?s @ [''[]'']\<rparr>)"
    by (intro request_run) (simp_all add: initial_msys_def plain_def offer_def one_defs)
  then show ?thesis by (simp add: initial_msys_def one_defs)
qed

lemma one_drained: "msteps (one_msys [''[]''] [''queue_threshold''] Waiting False) (one_msys [''[]''] [] Waiting True)"
proof -
  have "msteps (one_msys [''[]''] [''queue_threshold''] Waiting False) (one_msys [''[]''] [] (Draining []) False)"
    using mstep.wake [of "one_msys [''[]''] [''queue_threshold''] Waiting False" "''queue_threshold''" "sig_chan []"]
    by (simp add: one_defs chan_recv_def r_into_rtranclp)
  also have "mstep (one_msys [''[]''] [] (Draining []) False) (one_msys [] [] (Draining [''[]'']) False)"
    using mstep.take [of "one_msys [''[]''] [] (Draining []) False" "[]" "''[]''" "one_chan []"]
    by (simp add: one_defs chan_recv_def set_queue_def)
  also have "mstep (one_msys [] [] (Draining [''[]'']) False) (one_msys [] [] (Sending [''[]'']) False)"
    using mstep.no_more [of "one_msys [] [] (Draining [''[]'']) False" "[''[]'']"] by (simp add: one_defs chan_recv_def)
  also have "mstep (one_msys [] [] (Sending [''[]'']) False) (one_msys [] [] (PuttingBack [''[]'']) True)"
    using mstep.fail [of "one_msys [] [] (Sending [''[]'']) False" "[''[]'']"] by (simp add: one_defs)
  also have "mstep (one_msys [] [] (PuttingBack [''[]'']) True) (one_msys [''[]''] [] (PuttingBack []) True)"
    using mstep.put_back [of "one_msys [] [] (PuttingBack [''[]'']) True" "''[]''" "[]" "one_chan [''[]'']"]
    by (simp add: one_defs chan_send_def set_queue_def)
  also have "mstep (one_msys [''[]''] [] (PuttingBack []) True) (one_msys [''[]''] [] Waiting True)"
    using mstep.finish [of "one_msys [''[]''] [] (PuttingBack []) True"] by (simp add: one_defs)
  finally show ?thesis .
qed

lemma one_waits: "mstep (one_msys [''[]''] [] Waiting True) s' \<Longrightarrow> m_handlers s' \<noteq> {#}"
  by (erule mstepE) (auto simp: one_defs chan_recv_def)

text \<open>
  C36. After a failed send the wake-up is lost: the messages go back into the queue without a signal, so there is a
  run to a state in which the queue is at its threshold, nobody is at work, no signal is pending, and the
  only thing that can happen is another request. Until then the data is not sent.
\<close>

theorem failed_batch_waits:
  "\<exists>s. msteps (initial_msys 1) s \<and> at_threshold (m_queue s) \<and> m_sent s = [] \<and> m_phase s = Waiting
     \<and> m_handlers s = {#} \<and> ch_buf (m_signals s) = [] \<and> Collect (mstep s) \<subseteq> {s'. m_handlers s' \<noteq> {#}}"
proof -
  let ?s = "one_msys [''[]''] [] Waiting True"
  have "msteps (initial_msys 1) ?s" using one_signalled one_drained by (rule rtranclp_trans)
  moreover have "at_threshold (m_queue ?s)" by code_simp
  ultimately show ?thesis using one_waits by (intro exI [of _ ?s]) (auto simp: one_msys_def sig_chan_def)
qed

theorem managed_DrainQueue_refines_witness:
  "\<exists>s'. msteps (one_msys [sample_payload] [] (Draining []) False) s' \<and> ch_buf (m_queue s') = [] \<and> m_sent s' = [sample_payload]"
proof -
  let ?s = "one_msys [sample_payload] [] (Draining []) False" and ?esc = "NewManagedInstanceTaskConsumer sample_ext sample_cfg"
  have plain: "plain (m_queue ?s)" by (simp add: one_defs plain_def)
  have q: "m_queue ?s = one_chan [sample_payload]" by (simp add: one_msys_def)
  have "fst (SendAllLogs sample_ext sample_client [sample_payload] sample_world) = Ret None" by code_simp
  then obtain w' where send: "SendAllLogs sample_ext sample_client [sample_payload] sample_world = (Ret None, w')"
    by (metis prod.collapse)
  have "managed_DrainQueue ?esc (sample_world, m_queue ?s) = (Ret 0, (w', one_chan []))"
    using plain_open [OF plain] send
    by (simp add: managed_DrainQueue_eq q after_try_def sample_client_def one_chan_def emptied_def)
  moreover have "m_phase ?s = Draining []" "m_sent ?s = []" "ch_buf (m_queue ?s) = [sample_payload]" "ch_buf (one_chan []) = []"
    by (simp_all add: one_defs)
  ultimately show ?thesis using managed_DrainQueue_refines [OF plain, of ?esc sample_world "Ret 0" w' "one_chan []"] send
    by (auto simp: m_drained_def m_called_def sample_client_def)
qed

end
