(* ===== verification/LambdaApi.thy ===== *)
theory LambdaApi
  imports Utils Go_Decode
begin

text \<open>
  \<open>lambda-extensions/lambdaapi\<close>: the client of the Extensions, Telemetry and Logs APIs. A call takes the
  client, whose \<open>extensionID\<close> it may learn from a response header, and the outside. A \<open>context\<close> argument
  only matters by being nil or not, since its other effects are those of the HTTP transport.
\<close>

section \<open>httpclient.go\<close>

definition extensionNameHeader :: string where
  "extensionNameHeader = ''Lambda-Extension-Name''"

definition extensionIdentiferHeader :: string where
  "extensionIdentiferHeader = ''Lambda-Extension-Identifier''"

definition extensionErrorType :: string where
  "extensionErrorType = ''Lambda-Extension-Function-Error-Type''"

record Client =
  baseURL :: string
  extensionID :: string
  extensionName :: string

definition NewClient :: "string \<Rightarrow> string \<Rightarrow> Client" where
  "NewClient awsLambdaRuntimeAPI name =
     \<lparr>baseURL = ''http://'' @ awsLambdaRuntimeAPI @ ''/'', extensionID = [], extensionName = name\<rparr>"

type_synonym 'a api = "Client \<times> world \<Rightarrow> (error + 'a) \<times> Client \<times> world"

text \<open>The loop that sets the headers of the argument, whose keys differ.\<close>

fun set_headers :: "(string \<times> string) list \<Rightarrow> (string \<times> string) list \<Rightarrow> (string \<times> string) list" where
  "set_headers [] h = h"
| "set_headers ((key, v) # headers) h = set_headers headers (header_Set key v h)"

definition MakeRequestWithContext ::
  "ext \<Rightarrow> (string \<times> string) list \<Rightarrow> bytes \<Rightarrow> string \<Rightarrow> string \<Rightarrow> bytes api" where
  "MakeRequestWithContext x headers request methodType URL st =
     (case st of (client, w) \<Rightarrow>
        (case http_NewRequest x methodType URL of
           Some err \<Rightarrow> (Inl err, client, w)
         | None \<Rightarrow>
             (let h = header_Set ''Content-Type'' ''application/json'' [];
                  h = set_headers headers h
              in (case do_http x \<lparr>rq_method = methodType, rq_url = URL, rq_header = h, rq_body = request\<rparr> w of
                    (Inl err, w1) \<Rightarrow> (Inl err, client, w1)
                  | (Inr httpRes, w1) \<Rightarrow>
                      (case rs_body httpRes of
                         Inl err \<Rightarrow> (Inl err, client, w1)
                       | Inr body \<Rightarrow>
                           if StatusCode httpRes \<noteq> 200
                           then (Inl (ErrRequestFailed (StatusCode httpRes) body), client, w1)
                           else (let id = header_Get (rs_header httpRes) extensionIdentiferHeader
                                 in if length id \<noteq> 0 then (Inr body, client\<lparr>extensionID := id\<rparr>, w1)
                                    else (Inr body, client, w1)))))))"

definition MakeRequest ::
  "ext \<Rightarrow> (string \<times> string) list \<Rightarrow> bytes \<Rightarrow> string \<Rightarrow> string \<Rightarrow> bytes api" where
  "MakeRequest x headers request methodType URL st =
     (case st of (client, w) \<Rightarrow>
        (case http_NewRequest x methodType URL of
           Some err \<Rightarrow> (Inl err, client, w)
         | None \<Rightarrow>
             (let h = header_Set ''Content-Type'' ''application/json'' [];
                  h = set_headers headers h
              in (case do_http x \<lparr>rq_method = methodType, rq_url = URL, rq_header = h, rq_body = request\<rparr> w of
                    (Inl err, w1) \<Rightarrow> (Inl err, client, w1)
                  | (Inr httpRes, w1) \<Rightarrow>
                      (case rs_body httpRes of
                         Inl err \<Rightarrow> (Inl err, client, w1)
                       | Inr body \<Rightarrow>
                           if StatusCode httpRes \<noteq> 200
                           then (Inl (ErrRequestFailed (StatusCode httpRes) body), client, w1)
                           else (let id = header_Get (rs_header httpRes) extensionIdentiferHeader
                                 in if length id \<noteq> 0 then (Inr body, client\<lparr>extensionID := id\<rparr>, w1)
                                    else (Inr body, client, w1)))))))"

text \<open>The choice between the two, as every operation makes it.\<close>

definition makeCall :: "ext \<Rightarrow> bool \<Rightarrow> (string \<times> string) list \<Rightarrow> bytes \<Rightarrow> string \<Rightarrow> string \<Rightarrow> bytes api" where
  "makeCall x ctx headers request methodType URL =
     (if ctx then MakeRequestWithContext x headers request methodType URL
      else MakeRequest x headers request methodType URL)"

section \<open>extensionapiclient.go\<close>

record RegisterResponse =
  rr_FunctionName :: string
  rr_FunctionVersion :: string
  rr_Handler :: string

record Tracing =
  tr_Type :: string
  tr_Value :: string

record NextEventResponse =
  EventType :: string
  DeadlineMs :: int
  RequestID :: string
  InvokedFunctionArn :: string
  ne_Tracing :: Tracing

record StatusResponse =
  sr_Status :: string

definition Invoke :: string where
  "Invoke = ''INVOKE''"

definition Shutdown :: string where
  "Shutdown = ''SHUTDOWN''"

definition extensionURL :: string where
  "extensionURL = ''2020-01-01/extension/''"

definition lambdaEvents :: "string list" where
  "lambdaEvents = [''INVOKE'', ''SHUTDOWN'']"

definition managedInstanceLambdaEvents :: "string list" where
  "managedInstanceLambdaEvents = [''SHUTDOWN'']"

definition assign_RegisterResponse :: "string \<Rightarrow> json \<Rightarrow> RegisterResponse \<Rightarrow> RegisterResponse option" where
  "assign_RegisterResponse k j r =
     (if names_field ''functionName'' k then map_option (\<lambda>s. r\<lparr>rr_FunctionName := s\<rparr>) (decode_string j (rr_FunctionName r))
      else if names_field ''functionVersion'' k
      then map_option (\<lambda>s. r\<lparr>rr_FunctionVersion := s\<rparr>) (decode_string j (rr_FunctionVersion r))
      else if names_field ''handler'' k then map_option (\<lambda>s. r\<lparr>rr_Handler := s\<rparr>) (decode_string j (rr_Handler r))
      else Some r)"

definition assign_Tracing :: "string \<Rightarrow> json \<Rightarrow> Tracing \<Rightarrow> Tracing option" where
  "assign_Tracing k j t =
     (if names_field ''type'' k then map_option (\<lambda>s. t\<lparr>tr_Type := s\<rparr>) (decode_string j (tr_Type t))
      else if names_field ''value'' k then map_option (\<lambda>s. t\<lparr>tr_Value := s\<rparr>) (decode_string j (tr_Value t))
      else Some t)"

definition assign_NextEventResponse :: "string \<Rightarrow> json \<Rightarrow> NextEventResponse \<Rightarrow> NextEventResponse option" where
  "assign_NextEventResponse k j n =
     (if names_field ''eventType'' k then map_option (\<lambda>s. n\<lparr>EventType := s\<rparr>) (decode_string j (EventType n))
      else if names_field ''deadlineMs'' k then map_option (\<lambda>i. n\<lparr>DeadlineMs := i\<rparr>) (decode_int64 j (DeadlineMs n))
      else if names_field ''requestId'' k then map_option (\<lambda>s. n\<lparr>RequestID := s\<rparr>) (decode_string j (RequestID n))
      else if names_field ''invokedFunctionArn'' k
      then map_option (\<lambda>s. n\<lparr>InvokedFunctionArn := s\<rparr>) (decode_string j (InvokedFunctionArn n))
      else if names_field ''tracing'' k
      then map_option (\<lambda>t. n\<lparr>ne_Tracing := t\<rparr>) (decode_struct assign_Tracing j (ne_Tracing n))
      else Some n)"

definition assign_StatusResponse :: "string \<Rightarrow> json \<Rightarrow> StatusResponse \<Rightarrow> StatusResponse option" where
  "assign_StatusResponse k j r =
     (if names_field ''status'' k then map_option (\<lambda>s. r\<lparr>sr_Status := s\<rparr>) (decode_string j (sr_Status r))
      else Some r)"

definition unmarshal_struct :: "(string \<Rightarrow> json \<Rightarrow> 's \<Rightarrow> 's option) \<Rightarrow> 's \<Rightarrow> bytes \<Rightarrow> error + 's" where
  "unmarshal_struct assign zero body =
     (case json_parse body of
        None \<Rightarrow> Inl ErrJson
      | Some j \<Rightarrow> (case decode_struct assign j zero of None \<Rightarrow> Inl ErrJson | Some s \<Rightarrow> Inr s))"

text \<open>A call followed by the decoding of its response.\<close>

definition decoded :: "bytes api \<Rightarrow> (bytes \<Rightarrow> error + 's) \<Rightarrow> 's api" where
  "decoded call dec st =
     (case call st of
        (Inl err, st') \<Rightarrow> (Inl err, st')
      | (Inr response, st') \<Rightarrow> (dec response, st'))"

definition zero_RegisterResponse :: RegisterResponse where
  "zero_RegisterResponse = \<lparr>rr_FunctionName = [], rr_FunctionVersion = [], rr_Handler = []\<rparr>"

definition zero_NextEventResponse :: NextEventResponse where
  "zero_NextEventResponse =
     \<lparr>EventType = [], DeadlineMs = 0, RequestID = [], InvokedFunctionArn = [],
      ne_Tracing = \<lparr>tr_Type = [], tr_Value = []\<rparr>\<rparr>"

definition register_body :: "bool \<Rightarrow> gv" where
  "register_body isManagedInstance =
     VMap [(''events'', VSlice (map VString
        (if isManagedInstance then managedInstanceLambdaEvents else lambdaEvents)))]"

definition RegisterExtension :: "ext \<Rightarrow> bool \<Rightarrow> bool \<Rightarrow> RegisterResponse api" where
  "RegisterExtension x ctx isManagedInstance st =
     (let client = fst st; URL = baseURL client @ extensionURL @ ''register''
      in (case marshal (register_body isManagedInstance) of
            None \<Rightarrow> (Inl ErrJson, st)
          | Some reqBody \<Rightarrow>
              decoded (makeCall x ctx [(extensionNameHeader, extensionName client)] reqBody ''POST'' URL)
                (unmarshal_struct assign_RegisterResponse zero_RegisterResponse) st))"

definition NextEvent :: "ext \<Rightarrow> bool \<Rightarrow> NextEventResponse api" where
  "NextEvent x ctx st =
     (let client = fst st; URL = baseURL client @ extensionURL @ ''event/next''
      in decoded (makeCall x ctx [(extensionIdentiferHeader, extensionID client)] [] ''GET'' URL)
           (unmarshal_struct assign_NextEventResponse zero_NextEventResponse) st)"

definition InitError :: "ext \<Rightarrow> bool \<Rightarrow> string \<Rightarrow> StatusResponse api" where
  "InitError x ctx errorType st =
     (let client = fst st; URL = baseURL client @ extensionURL @ ''/init/error''
      in decoded (makeCall x ctx
             [(extensionIdentiferHeader, extensionID client), (extensionErrorType, errorType)] [] ''POST'' URL)
           (unmarshal_struct assign_StatusResponse \<lparr>sr_Status = []\<rparr>) st)"

definition ExitError :: "ext \<Rightarrow> bool \<Rightarrow> string \<Rightarrow> StatusResponse api" where
  "ExitError x ctx errorType st =
     (let client = fst st; URL = baseURL client @ extensionURL @ ''/exit/error''
      in decoded (makeCall x ctx
             [(extensionIdentiferHeader, extensionID client), (extensionErrorType, errorType)] [] ''POST'' URL)
           (unmarshal_struct assign_StatusResponse \<lparr>sr_Status = []\<rparr>) st)"

section \<open>telemetryapiclient.go and logsapiclient.go\<close>

definition telemetryURL :: string where
  "telemetryURL = ''2022-07-01/telemetry''"

definition logsURL :: string where
  "logsURL = ''2020-08-15/logs''"

definition receiverPort :: int where
  "receiverPort = 4243"

text \<open>The subscription, a map whose keys are written in order.\<close>

definition subscription :: "string list \<Rightarrow> int \<Rightarrow> int \<Rightarrow> int \<Rightarrow> string \<Rightarrow> gv" where
  "subscription logEvents timeoutMs maxBytes maxItems schemaVersion =
     VMap [(''buffering'', VMap [(''maxBytes'', VInt maxBytes), (''maxItems'', VInt maxItems), (''timeoutMs'', VInt timeoutMs)]),
           (''destination'', VMap [(''URI'', VString (''http://sandbox:'' @ show_int receiverPort)), (''protocol'', VString ''HTTP'')]),
           (''schemaVersion'', VString schemaVersion),
           (''types'', VSlice (map VString logEvents))]"

definition SubscribeToTelemetryAPI :: "ext \<Rightarrow> bool \<Rightarrow> string list \<Rightarrow> int \<Rightarrow> int \<Rightarrow> int \<Rightarrow> bool \<Rightarrow> bytes api" where
  "SubscribeToTelemetryAPI x ctx logEvents telemetryTimeoutMs telemetryMaxBytes telemetryMaxItems isManagedInstance st =
     (let client = fst st; URL = baseURL client @ telemetryURL;
          schemaVersion = (if isManagedInstance then ''2025-01-29'' else ''2022-07-01'')
      in (case marshal (subscription logEvents telemetryTimeoutMs telemetryMaxBytes telemetryMaxItems schemaVersion) of
            None \<Rightarrow> (Inl ErrJson, st)
          | Some reqBody \<Rightarrow>
              makeCall x ctx [(extensionIdentiferHeader, extensionID client)] reqBody ''PUT'' URL st))"

definition SubscribeToLogsAPI :: "ext \<Rightarrow> bool \<Rightarrow> string list \<Rightarrow> bytes api" where
  "SubscribeToLogsAPI x ctx logEvents st =
     (let client = fst st; URL = baseURL client @ logsURL
      in (case marshal (subscription logEvents 1000 1048576 10000 ''2021-03-18'') of
            None \<Rightarrow> (Inl ErrJson, st)
          | Some reqBody \<Rightarrow>
              makeCall x ctx [(extensionIdentiferHeader, extensionID client)] reqBody ''PUT'' URL st))"

end
