(* ===== verification/LambdaApi_Props.thy ===== *)
theory LambdaApi_Props
  imports LambdaApi Samples Posting
begin

text \<open>
  Correctness of the API client: every operation sends at most one request, with the URL, method,
  headers and body the API documents; the identifier learnt at registration travels with the
  later requests; an error leaves the client as it was.
\<close>

section \<open>One call\<close>

lemma MakeRequest_eq: "MakeRequest x headers request methodType URL = MakeRequestWithContext x headers request methodType URL"
  by (rule ext) (simp add: MakeRequest_def MakeRequestWithContext_def)

lemma makeCall_eq: "makeCall x ctx headers request methodType URL = MakeRequestWithContext x headers request methodType URL"
  by (simp add: makeCall_def MakeRequest_eq)

definition api_request :: "(string \<times> string) list \<Rightarrow> bytes \<Rightarrow> string \<Rightarrow> string \<Rightarrow> request" where
  "api_request headers body methodType URL =
     \<lparr>rq_method = methodType, rq_url = URL,
      rq_header = set_headers headers [(''Content-Type'', ''application/json'')], rq_body = body\<rparr>"

text \<open>
  What a call of the API does: no request could be made, or exactly the given one was sent. A result
  needs an answer with status 200, whose identifier header, when present, the client then keeps.
\<close>

definition api_effect ::
  "request \<Rightarrow> Client \<Rightarrow> world \<Rightarrow> (error + bytes) \<Rightarrow> Client \<Rightarrow> world \<Rightarrow> bool" where
  "api_effect rq client w r client' w' \<longleftrightarrow>
     (if new_http w w' = [] then (case r of Inl _ \<Rightarrow> client' = client | Inr _ \<Rightarrow> False)
      else (\<exists>a. new_http w w' = [(rq, a)] \<and>
         (case r of
            Inl _ \<Rightarrow> client' = client
          | Inr body \<Rightarrow>
              (\<exists>rs. a = Inr rs \<and> StatusCode rs = 200 \<and> rs_body rs = Inr body
               \<and> client' = client\<lparr>extensionID :=
                   if header_Get (rs_header rs) ''Lambda-Extension-Identifier'' = [] then extensionID client
                   else header_Get (rs_header rs) ''Lambda-Extension-Identifier''\<rparr>))))"

lemma Client_update_self [simp]: "c\<lparr>extensionID := extensionID c\<rparr> = c"
  by (cases c) simp

lemma makeCall_effect:
  assumes "makeCall x ctx headers body methodType URL (client, w) = (r, client', w')"
  shows "api_effect (api_request headers body methodType URL) client w r client' w'"
  using assms
  by (auto simp: makeCall_eq MakeRequestWithContext_def do_http_def Let_def api_effect_def api_request_def
      header_Set_def [of "''Content-Type''"] new_http_def extensionIdentiferHeader_def
      split: option.splits sum.splits if_splits)

lemma makeCall_sent:
  assumes "makeCall x ctx headers body methodType URL (client, w) = (r, client', w')"
    and "http_NewRequest x methodType URL = None"
  shows "\<exists>a. new_http w w' = [(api_request headers body methodType URL, a)]"
  using assms
  by (auto simp: makeCall_eq MakeRequestWithContext_def do_http_def Let_def api_request_def
      header_Set_def [of "''Content-Type''"] new_http_def split: option.splits sum.splits if_splits)

lemma makeCall_extends:
  "makeCall x ctx headers body methodType URL (client, w) = (r, client', w') \<Longrightarrow> extends w w'"
  by (auto simp: makeCall_eq MakeRequestWithContext_def do_http_def Let_def extends_def
      split: option.splits sum.splits if_splits)

lemma makeCall_log:
  "makeCall x ctx headers body methodType URL (client, w) = (r, client', w') \<Longrightarrow>
     (\<exists>h. w_http w' = w_http w @ h) \<and> w_puts w' = w_puts w"
  by (auto simp: makeCall_eq MakeRequestWithContext_def do_http_def Let_def
      split: option.splits sum.splits if_splits)

lemma decoded_call: "decoded call dec st = (r, st') \<Longrightarrow> \<exists>r0. call st = (r0, st')"
  by (auto simp: decoded_def split: prod.splits sum.splits)

lemma decoded_Inr:
  "decoded call dec st = (Inr b, st') \<Longrightarrow> \<exists>body. call st = (Inr body, st') \<and> dec body = Inr b"
  by (auto simp: decoded_def split: prod.splits sum.splits)

lemma NextEvent_sent:
  assumes "NextEvent x ctx (client, w) = (r, client', w')"
    and "http_NewRequest x ''GET'' (baseURL client @ ''2020-01-01/extension/event/next'') = None"
  shows "\<exists>a. new_http w w' =
    [(api_request [(''Lambda-Extension-Identifier'', extensionID client)] [] ''GET''
        (baseURL client @ ''2020-01-01/extension/event/next''), a)]"
proof -
  have "decoded (makeCall x ctx [(''Lambda-Extension-Identifier'', extensionID client)] [] ''GET''
      (baseURL client @ ''2020-01-01/extension/event/next''))
      (unmarshal_struct assign_NextEventResponse zero_NextEventResponse) (client, w) = (r, client', w')"
    using assms(1) by (simp add: NextEvent_def extensionIdentiferHeader_def extensionURL_def)
  then obtain r0 where "makeCall x ctx [(''Lambda-Extension-Identifier'', extensionID client)] [] ''GET''
      (baseURL client @ ''2020-01-01/extension/event/next'') (client, w) = (r0, client', w')"
    using decoded_call by blast
  from makeCall_sent [OF this assms(2)] show ?thesis .
qed

section \<open>Texts of the requests\<close>

lemma marshal_strings: "marshal_items (map VString ss) = Some (map json_string ss)"
  by (induction ss) simp_all

definition subscription_text :: "string list \<Rightarrow> int \<Rightarrow> int \<Rightarrow> int \<Rightarrow> string \<Rightarrow> string" where
  "subscription_text logEvents timeoutMs maxBytes maxItems schemaVersion =
     ''{\"buffering\":{\"maxBytes\":'' @ show_int maxBytes @ '',\"maxItems\":'' @ show_int maxItems
     @ '',\"timeoutMs\":'' @ show_int timeoutMs
     @ ''},\"destination\":{\"URI\":\"http://sandbox:4243\",\"protocol\":\"HTTP\"},\"schemaVersion\":''
     @ json_string schemaVersion @ '',\"types\":['' @ joinStr '','' (map json_string logEvents) @ '']}''"

lemma plain_strings:
  "json_string ''buffering'' = ''\"buffering\"''" "json_string ''maxBytes'' = ''\"maxBytes\"''"
  "json_string ''maxItems'' = ''\"maxItems\"''" "json_string ''timeoutMs'' = ''\"timeoutMs\"''"
  "json_string ''destination'' = ''\"destination\"''" "json_string ''URI'' = ''\"URI\"''"
  "json_string ''protocol'' = ''\"protocol\"''" "json_string ''HTTP'' = ''\"HTTP\"''"
  "json_string ''schemaVersion'' = ''\"schemaVersion\"''" "json_string ''types'' = ''\"types\"''"
  "json_string (''http://sandbox:'' @ show_int receiverPort) = ''\"http://sandbox:4243\"''"
  by code_simp+

lemma marshal_subscription:
  "marshal (subscription es t b i v) = Some (subscription_text es t b i v)"
  unfolding subscription_def marshal.simps marshal_fields.simps marshal_strings option.map option.case
    plain_strings subscription_text_def
  by simp

lemma marshal_register:
  "marshal (register_body False) = Some ''{\"events\":[\"INVOKE\",\"SHUTDOWN\"]}''"
  "marshal (register_body True) = Some ''{\"events\":[\"SHUTDOWN\"]}''"
  by code_simp+

section \<open>Properties\<close>

text \<open>
  C27. The identity given at registration is used: a successful \<open>RegisterExtension\<close> sent exactly one POST,
  with the name of the extension in its header and the events of the mode in its body, and the
  next \<open>NextEvent\<close> sends exactly one GET that carries the identifier from the answer's header.
\<close>

theorem registered_identity:
  assumes "RegisterExtension x ctx managed (client, w) = (Inr resp, client1, w1)"
    and "NextEvent x ctx' (client1, w1) = (r, client2, w2)"
    and "http_NewRequest x ''GET'' (baseURL client @ ''2020-01-01/extension/event/next'') = None"
  shows "\<exists>rs a.
      new_http w w1 =
        [(api_request [(''Lambda-Extension-Name'', extensionName client)]
            (if managed then ''{\"events\":[\"SHUTDOWN\"]}'' else ''{\"events\":[\"INVOKE\",\"SHUTDOWN\"]}'')
            ''POST'' (baseURL client @ ''2020-01-01/extension/register''), Inr rs)]
      \<and> StatusCode rs = 200
      \<and> new_http w1 w2 =
        [(api_request
            [(''Lambda-Extension-Identifier'',
              if header_Get (rs_header rs) ''Lambda-Extension-Identifier'' = [] then extensionID client
              else header_Get (rs_header rs) ''Lambda-Extension-Identifier'')]
            [] ''GET'' (baseURL client @ ''2020-01-01/extension/event/next''), a)]"
proof -
  let ?body = "if managed then ''{\"events\":[\"SHUTDOWN\"]}'' else ''{\"events\":[\"INVOKE\",\"SHUTDOWN\"]}''"
  have "marshal (register_body managed) = Some ?body" using marshal_register by (cases managed) simp_all
  then have "decoded (makeCall x ctx [(''Lambda-Extension-Name'', extensionName client)] ?body ''POST''
      (baseURL client @ ''2020-01-01/extension/register''))
      (unmarshal_struct assign_RegisterResponse zero_RegisterResponse) (client, w) = (Inr resp, client1, w1)"
    using assms(1) by (simp add: RegisterExtension_def extensionNameHeader_def extensionURL_def)
  then obtain body where "makeCall x ctx [(''Lambda-Extension-Name'', extensionName client)] ?body ''POST''
      (baseURL client @ ''2020-01-01/extension/register'') (client, w) = (Inr body, client1, w1)"
    using decoded_Inr by fast
  from makeCall_effect [OF this] obtain rs where
    "new_http w w1 = [(api_request [(''Lambda-Extension-Name'', extensionName client)] ?body ''POST''
        (baseURL client @ ''2020-01-01/extension/register''), Inr rs)]" "StatusCode rs = 200"
    "client1 = client\<lparr>extensionID :=
       if header_Get (rs_header rs) ''Lambda-Extension-Identifier'' = [] then extensionID client
       else header_Get (rs_header rs) ''Lambda-Extension-Identifier''\<rparr>"
    by (auto simp: api_effect_def split: if_splits)
  with NextEvent_sent [OF assms(2)] assms(3) show ?thesis by auto
qed

text \<open>A runtime API that answers every request, with an identifier and an empty object.\<close>

definition sample_api_ext :: ext where
  "sample_api_ext = sample_ext\<lparr>http_Do := (\<lambda>n rq. Inr
     \<lparr>StatusCode = 200, rs_header = [(''Lambda-Extension-Identifier'', ''id-7'')], rs_body = Inr ''{}''\<rparr>)\<rparr>"

definition sample_api_client :: Client where
  "sample_api_client = NewClient ''127.0.0.1:9001'' ''sumologic-extension''"

theorem registered_identity_witness:
  "\<exists>client1 w1 r client2 w2 a.
     RegisterExtension sample_api_ext True False (sample_api_client, sample_world) = (Inr zero_RegisterResponse, client1, w1)
     \<and> NextEvent sample_api_ext True (client1, w1) = (r, client2, w2)
     \<and> new_http w1 w2 = [(api_request [(''Lambda-Extension-Identifier'', ''id-7'')] [] ''GET''
          ''http://127.0.0.1:9001/2020-01-01/extension/event/next'', a)]"
proof -
  have "fst (RegisterExtension sample_api_ext True False (sample_api_client, sample_world)) = Inr zero_RegisterResponse"
    by code_simp
  then obtain client1 w1 where reg:
    "RegisterExtension sample_api_ext True False (sample_api_client, sample_world) = (Inr zero_RegisterResponse, client1, w1)"
    by (metis prod.collapse)
  obtain r client2 w2 where next_event: "NextEvent sample_api_ext True (client1, w1) = (r, client2, w2)"
    by (metis prod.collapse)
  have "map (\<lambda>p. snd p) (new_http sample_world
      (snd (snd (RegisterExtension sample_api_ext True False (sample_api_client, sample_world)))))
    = [Inr \<lparr>StatusCode = 200, rs_header = [(''Lambda-Extension-Identifier'', ''id-7'')], rs_body = Inr ''{}''\<rparr>]"
    by code_simp
  with registered_identity [OF reg next_event] reg next_event show ?thesis
    by (auto simp: sample_api_ext_def sample_ext_def sample_api_client_def NewClient_def header_Get_def)
qed

text \<open>
  C28. The subscription sent to the Telemetry API for the configuration of the program: one PUT with the
  identifier, whose body is the documented JSON object with the configured log types and buffering
  limits, the local receiver as destination and the schema version of the mode.
\<close>

theorem telemetry_subscription:
  assumes "http_NewRequest x ''PUT'' (baseURL client @ ''2022-07-01/telemetry'') = None"
    and "SubscribeToTelemetryAPI x ctx (LogTypes cfg) (TelemetryTimeoutMs cfg) (TelemetryMaxBytes cfg)
           (TelemetryMaxItems cfg) managed (client, w) = (r, client', w')"
  shows "\<exists>a. new_http w w' =
    [(api_request [(''Lambda-Extension-Identifier'', extensionID client)]
        (subscription_text (LogTypes cfg) (TelemetryTimeoutMs cfg) (TelemetryMaxBytes cfg) (TelemetryMaxItems cfg)
           (if managed then ''2025-01-29'' else ''2022-07-01''))
        ''PUT'' (baseURL client @ ''2022-07-01/telemetry''), a)]"
proof -
  have "makeCall x ctx [(''Lambda-Extension-Identifier'', extensionID client)]
        (subscription_text (LogTypes cfg) (TelemetryTimeoutMs cfg) (TelemetryMaxBytes cfg) (TelemetryMaxItems cfg)
           (if managed then ''2025-01-29'' else ''2022-07-01''))
        ''PUT'' (baseURL client @ ''2022-07-01/telemetry'') (client, w) = (r, client', w')"
    using assms(2)
    by (simp add: SubscribeToTelemetryAPI_def marshal_subscription extensionIdentiferHeader_def telemetryURL_def)
  from makeCall_sent [OF this assms(1)] show ?thesis .
qed

theorem telemetry_subscription_witness:
  "\<exists>r client' w' a.
     SubscribeToTelemetryAPI sample_api_ext True (LogTypes sample_cfg) (TelemetryTimeoutMs sample_cfg)
       (TelemetryMaxBytes sample_cfg) (TelemetryMaxItems sample_cfg) False (sample_api_client, sample_world) = (r, client', w')
     \<and> new_http sample_world w' =
       [(api_request [(''Lambda-Extension-Identifier'', [])]
           ''{\"buffering\":{\"maxBytes\":262144,\"maxItems\":10000,\"timeoutMs\":1000},\"destination\":{\"URI\":\"http://sandbox:4243\",\"protocol\":\"HTTP\"},\"schemaVersion\":\"2022-07-01\",\"types\":[\"platform\",\"function\"]}''
           ''PUT'' ''http://127.0.0.1:9001/2022-07-01/telemetry'', a)]"
proof -
  obtain r client' w' where call:
    "SubscribeToTelemetryAPI sample_api_ext True (LogTypes sample_cfg) (TelemetryTimeoutMs sample_cfg)
       (TelemetryMaxBytes sample_cfg) (TelemetryMaxItems sample_cfg) False (sample_api_client, sample_world) = (r, client', w')"
    by (metis prod.collapse)
  have "http_NewRequest sample_api_ext ''PUT'' (baseURL sample_api_client @ ''2022-07-01/telemetry'') = None"
    by code_simp
  from telemetry_subscription [OF this call] obtain a where
    "new_http sample_world w' =
    [(api_request [(''Lambda-Extension-Identifier'', extensionID sample_api_client)]
        (subscription_text (LogTypes sample_cfg) (TelemetryTimeoutMs sample_cfg) (TelemetryMaxBytes sample_cfg)
          (TelemetryMaxItems sample_cfg) ''2022-07-01'')
        ''PUT'' (baseURL sample_api_client @ ''2022-07-01/telemetry''), a)]" by auto
  moreover have "subscription_text (LogTypes sample_cfg) (TelemetryTimeoutMs sample_cfg) (TelemetryMaxBytes sample_cfg)
      (TelemetryMaxItems sample_cfg) ''2022-07-01'' =
    ''{\"buffering\":{\"maxBytes\":262144,\"maxItems\":10000,\"timeoutMs\":1000},\"destination\":{\"URI\":\"http://sandbox:4243\",\"protocol\":\"HTTP\"},\"schemaVersion\":\"2022-07-01\",\"types\":[\"platform\",\"function\"]}''"
    by code_simp
  moreover have "extensionID sample_api_client = []"
    "baseURL sample_api_client @ ''2022-07-01/telemetry'' = ''http://127.0.0.1:9001/2022-07-01/telemetry''"
    by code_simp+
  ultimately show ?thesis using call by auto
qed

end
