(* ===== verification/Extension.thy ===== *)
theory Extension
  imports Managed_Props LambdaApi_Props
begin

text \<open>
  \<open>sumologic-extension.go\<close>: the initialisation of the package, the registration with the runtime, the
  event loop and \<open>main\<close>. The loop is driven by a script with one entry per turn: whether the context
  is done when the \<open>select\<close> looks at it, the requests the local server has handled since the last turn, and those
  it handles while the turn waits for the next event.
  On managed instances the main goroutine never touches the data queue, which belongs to the
  producer and consumer of \<open>Managed\<close>.
\<close>

section \<open>Initialisation\<close>

record extension =
  ex_config :: LambdaExtensionConfig
  isManagedInstance :: bool
  ex_dataQueue :: "bytes chan"
  ex_flushSignal :: "string chan option"
  ex_producer :: "httpServer option"
  ex_managedProducer :: "managedInstanceHttpServer option"
  ex_consumer :: "world sumoConsumer option"
  ex_managedConsumer :: "world managedInstanceSumoConsumer option"
  extensionClient :: Client

text \<open>A configuration error is logged and otherwise ignored; \<open>consumer\<close> stays nil on managed instances.\<close>

definition extension_init :: "ext \<Rightarrow> extension outcome" where
  "extension_init x =
     (case GetConfig x of
        (cfg, err) \<Rightarrow>
          (case make_chan (MaxDataQueueLength cfg) of
             Panic p \<Rightarrow> Panic p
           | Hang \<Rightarrow> Hang
           | Ret q \<Rightarrow>
               (let client = NewClient (os_Getenv x ''AWS_LAMBDA_RUNTIME_API'') (filepath_Base (os_Arg0 x))
                in if os_Getenv x ''AWS_LAMBDA_INITIALIZATION_TYPE'' = ''lambda-managed-instances'' then
                     (case make_chan 10 of
                        Panic p \<Rightarrow> Panic p
                      | Hang \<Rightarrow> Hang
                      | Ret fs \<Rightarrow>
                          Ret \<lparr>ex_config = cfg, isManagedInstance = True, ex_dataQueue = q, ex_flushSignal = Some fs,
                               ex_producer = None, ex_managedProducer = Some (NewManagedInstanceTaskProducer q fs),
                               ex_consumer = None,
                               ex_managedConsumer = Some (NewManagedInstanceTaskConsumer x cfg),
                               extensionClient = client\<rparr>)
                   else
                     Ret \<lparr>ex_config = cfg, isManagedInstance = False, ex_dataQueue = q, ex_flushSignal = None,
                          ex_producer = Some (NewTaskProducer q), ex_managedProducer = None,
                          ex_consumer = Some (NewTaskConsumer x cfg), ex_managedConsumer = None,
                          extensionClient = client\<rparr>)))"

section \<open>The runtime API\<close>

text \<open>The state of the main goroutine: the API client, the outside and the data queue.\<close>

record pstate =
  p_client :: Client
  p_world :: world
  p_queue :: "bytes chan"

definition api_op :: "'a api \<Rightarrow> pstate \<Rightarrow> (error + 'a) \<times> pstate" where
  "api_op f st =
     (case f (p_client st, p_world st) of (r, client, w) \<Rightarrow> (r, st\<lparr>p_client := client, p_world := w\<rparr>))"

definition nextEvent :: "ext \<Rightarrow> pstate \<Rightarrow> (error + NextEventResponse) \<times> pstate" where
  "nextEvent x st =
     (case api_op (NextEvent x True) st of
        (Inl err, st') \<Rightarrow> (Inl err, st')
      | (Inr nextResponse, st') \<Rightarrow> (Inr nextResponse, st'))"

definition runTimeAPIInit :: "ext \<Rightarrow> extension \<Rightarrow> pstate \<Rightarrow> (error + int) \<times> pstate" where
  "runTimeAPIInit x ex st =
     (case api_op (RegisterExtension x True (isManagedInstance ex)) st of
        (Inl err, st1) \<Rightarrow> (Inl err, st1)
      | (Inr registerResponse, st1) \<Rightarrow>
          (let cfg = ex_config ex
           in (case api_op (SubscribeToTelemetryAPI x True (LogTypes cfg) (TelemetryTimeoutMs cfg) (TelemetryMaxBytes cfg)
                        (TelemetryMaxItems cfg) (isManagedInstance ex)) st1 of
                 (Inl err, st2) \<Rightarrow> (Inl err, st2)
               | (Inr subscribeResponse, st2) \<Rightarrow>
                   if \<not> isManagedInstance ex then
                     (case nextEvent x st2 of
                        (Inl err, st3) \<Rightarrow> (Inl err, st3)
                      | (Inr nextResponse, st3) \<Rightarrow> (Inr (DeadlineMs nextResponse), st3))
                   else (Inr 0, st2))))"

section \<open>The event loop\<close>

record turn =
  ctx_done :: bool
  arrivals :: "http_in list"
  late_arrivals :: "http_in list"

datatype progress = Returned | Running

definition deliver :: "http_in list \<Rightarrow> pstate \<Rightarrow> pstate" where
  "deliver rqs st = st\<lparr>p_queue := foldl (\<lambda>q rq. snd (logsHandler rq q)) (p_queue st) rqs\<rparr>"

text \<open>A method call on the interface variable \<open>consumer\<close>, which panics when the variable is nil.\<close>

definition on_consumer :: "extension \<Rightarrow> (world sumoConsumer \<Rightarrow> (world qstate, 'a) action) \<Rightarrow> (pstate, 'a) action" where
  "on_consumer ex f st =
     (case ex_consumer ex of
        None \<Rightarrow> (Panic NilInterfaceCall, st)
      | Some sc \<Rightarrow> (case f sc (p_world st, p_queue st) of (r, (w, q)) \<Rightarrow> (r, st\<lparr>p_world := w, p_queue := q\<rparr>)))"

fun eventLoop :: "ext \<Rightarrow> extension \<Rightarrow> turn list \<Rightarrow> (pstate, progress) action" where
  "eventLoop x ex [] st = (Ret Running, st)"
| "eventLoop x ex (t # ts) st =
     (let st = (if isManagedInstance ex then st else deliver (arrivals t) st)
      in if ctx_done t then bindA (on_consumer ex FlushDataQueue) (\<lambda>_. returnA Returned) st
         else
           bindA (if isManagedInstance ex then returnA 0 else on_consumer ex DrainQueue)
             (\<lambda>runtime_done st1.
                case nextEvent x st1 of
                  (r, st2) \<Rightarrow>
                    (let st3 = (if isManagedInstance ex then st2 else deliver (late_arrivals t) st2)
                     in (case r of
                           Inl err \<Rightarrow> (Ret Returned, st3)
                         | Inr nextResponse \<Rightarrow>
                             if EventType nextResponse = Shutdown
                             then bindA (on_consumer ex DrainQueue) (\<lambda>_. returnA Returned) st3
                             else eventLoop x ex ts st3)))
             st)"

definition processEvents :: "ext \<Rightarrow> extension \<Rightarrow> turn list \<Rightarrow> (pstate, progress) action" where
  "processEvents x ex ts st =
     (case runTimeAPIInit x ex st of
        (Inl err, st1) \<Rightarrow> (Ret Returned, st1)
      | (Inr _, st1) \<Rightarrow> eventLoop x ex ts st1)"

text \<open>\<open>main\<close>: the deferred function recovers from a panic of the loop and asks for the next event.\<close>

definition main :: "ext \<Rightarrow> extension \<Rightarrow> turn list \<Rightarrow> (pstate, progress) action" where
  "main x ex ts st =
     (case processEvents x ex ts st of
        (Panic p, st1) \<Rightarrow> (case nextEvent x st1 of (_, st2) \<Rightarrow> (Ret Returned, st2))
      | (Ret r, st1) \<Rightarrow> (Ret r, st1)
      | (Hang, st1) \<Rightarrow> (Hang, st1))"

definition initial_state :: "extension \<Rightarrow> world \<Rightarrow> pstate" where
  "initial_state ex w = \<lparr>p_client = extensionClient ex, p_world = w, p_queue = ex_dataQueue ex\<rparr>"

section \<open>The producer and the package variables\<close>

text \<open>The goroutine of the producer; an error that \<open>Start\<close> returns would only be logged.\<close>

definition producer_goroutine :: "ext \<Rightarrow> extension \<Rightarrow> unit outcome" where
  "producer_goroutine x ex =
     (case (if isManagedInstance ex then managed_Start x else Start x) of
        Ret err \<Rightarrow> Ret ()
      | Panic p \<Rightarrow> Panic p
      | Hang \<Rightarrow> Hang)"

text \<open>The package variables of \<open>sumoclient.go\<close> at the start: the cache time is five minutes in the past.\<close>

definition sumoclient_vars :: "ext \<Rightarrow> world \<Rightarrow> world" where
  "sumoclient_vars x w =
     (case now x w of
        (t, w1) \<Rightarrow> w1\<lparr>isColdStart := True, decryptedSumoHttpEndpoint := [],
                      kmsEndpointCacheTime := t_nanos t - 5 * 60 * 1000000000\<rparr>)"

end
