(* ===== verification/Extension_Props.thy ===== *)
theory Extension_Props
  imports Extension
begin

text \<open>
  Correctness of the program as a whole: what the initialisation builds, what happens on managed
  instances at shutdown, what a payload that panics does to the loop, and how far \<open>main\<close> recovers. Whole runs of the
  standard loop are the subject of \<open>Extension_Runs\<close>.
\<close>

section \<open>Arrivals\<close>

definition ingested :: "http_in list \<Rightarrow> bytes list" where
  "ingested rqs = map in_body (filter (\<lambda>rq. in_path rq = ''/'' \<and> in_method rq = ''POST'') rqs)"

lemma deliver_queue:
  "chan_open q \<Longrightarrow>
     chan_open (foldl (\<lambda>q rq. snd (logsHandler rq q)) q rqs)
     \<and> contents (foldl (\<lambda>q rq. snd (logsHandler rq q)) q rqs) = contents q @ ingested rqs"
proof (induction rqs arbitrary: q)
  case (Cons rq rqs)
  obtain q' where q': "chan_open q'" "snd (logsHandler rq q) = q'"
    "contents q' = contents q @ ingested [rq]"
    using logsHandler_open [OF Cons.prems, of rq] by (auto simp: ingested_def split: if_splits)
  have "ingested (rq # rqs) = ingested [rq] @ ingested rqs" by (simp add: ingested_def)
  with Cons.IH [OF q'(1)] q' show ?case by simp
qed (simp add: ingested_def)

lemma deliver_simps:
  assumes "chan_open (p_queue st)"
  shows "chan_open (p_queue (deliver rqs st))"
    and "contents (p_queue (deliver rqs st)) = contents (p_queue st) @ ingested rqs"
    and "p_world (deliver rqs st) = p_world st"
  using deliver_queue [OF assms, of rqs] by (simp_all add: deliver_def)

lemma nextEvent_queue: "nextEvent x st = (r, st') \<Longrightarrow> p_queue st' = p_queue st"
  by (auto simp: nextEvent_def api_op_def split: prod.splits sum.splits)

lemma nextEvent_extends: "nextEvent x st = (r, st') \<Longrightarrow> extends (p_world st) (p_world st')"
  by (auto simp: nextEvent_def api_op_def NextEvent_def Let_def split: prod.splits sum.splits
      dest!: decoded_call makeCall_extends)

lemma nextEvent_log:
  "nextEvent x st = (r, st') \<Longrightarrow>
     (\<exists>h. w_http (p_world st') = w_http (p_world st) @ h) \<and> w_puts (p_world st') = w_puts (p_world st)"
  by (auto simp: nextEvent_def api_op_def NextEvent_def Let_def split: prod.splits sum.splits
      dest!: decoded_call makeCall_log)

section \<open>Initialisation\<close>

lemma extension_init_standard:
  assumes "extension_init x = Ret ex"
  shows "isManagedInstance ex = (os_Getenv x ''AWS_LAMBDA_INITIALIZATION_TYPE'' = ''lambda-managed-instances'')"
    and "ex_config ex = fst (GetConfig x)"
    and "ex_consumer ex = (if isManagedInstance ex then None else Some (NewTaskConsumer x (fst (GetConfig x))))"
    and "make_chan (MaxDataQueueLength (fst (GetConfig x))) = Ret (ex_dataQueue ex)"
  using assms
  by (auto simp: extension_init_def make_chan_def [of 10] Let_def split: prod.splits outcome.splits if_splits)

section \<open>One turn of the standard loop\<close>

lemma on_consumer_drain:
  assumes "ex_consumer ex = Some (NewTaskConsumer x cfg)" and "chan_open (p_queue st)"
  shows "on_consumer ex DrainQueue st =
    (case after_send (contents (p_queue st)) (done_flag (contents (p_queue st))) (p_queue st)
            (SendAllLogs x (NewLogSenderClient cfg) (contents (p_queue st)) (p_world st)) of
       (r, (w, q)) \<Rightarrow> (r, st\<lparr>p_world := w, p_queue := q\<rparr>))"
  using assms by (simp add: on_consumer_def DrainQueue_eq)

lemma on_consumer_drain_empty:
  assumes "ex_consumer ex = Some (NewTaskConsumer x cfg)" and "chan_open (p_queue st)" and "contents (p_queue st) = []"
  shows "on_consumer ex DrainQueue st = (Ret 0, st)"
  using assms sumo.DrainQueue_empty [OF assms(2,3), of "NewTaskConsumer x cfg"]
  by (simp add: on_consumer_def)

text \<open>The next event is a shutdown, whenever it is asked for.\<close>

definition shutdown_next :: "ext \<Rightarrow> bool" where
  "shutdown_next x = (\<forall>st. \<exists>resp st'. nextEvent x st = (Inr resp, st') \<and> EventType resp = ''SHUTDOWN'')"

text \<open>The cache of the endpoint starts stale, as the theory \<open>Posting\<close> assumes of it.\<close>

lemma sumoclient_vars_stale:
  assumes "clock_monotone x"
  shows "cache_stale x (sumoclient_vars x w)"
proof -
  have "t_nanos (time_Now x (w_tick w)) \<le> t_nanos (time_Now x (Suc (w_tick w)))"
    using assms by (simp add: clock_monotone_def)
  then show ?thesis by (simp add: cache_stale_def sumoclient_vars_def now_def Let_def)
qed

text \<open>
  The branch that logs an error of \<open>Start\<close> is never taken: in either mode an error of listening is a panic of the
  goroutine, which \<open>main\<close> cannot recover.
\<close>

lemma listen_error_panics:
  assumes "http_ListenAndServe x ''0.0.0.0:4243'' = Ret (Some err)"
  shows "producer_goroutine x ex = Panic (PanicValue ''ListenAndServe'')"
proof -
  have "receiverIP @ '':'' @ show_int receiver_port = ''0.0.0.0:4243''"
    "managedReceiverIP @ '':'' @ show_int managedReceiverPort = ''0.0.0.0:4243''" by code_simp+
  then show ?thesis using assms by (simp add: producer_goroutine_def managed_Start_def Start_def serve_def)
qed

section \<open>Properties\<close>

text \<open>
  The initialisation panics exactly when the configured queue length is negative. Otherwise the
  data queue is open, empty and of the configured capacity, whether or not the configuration was valid, and
  the variable \<open>consumer\<close> is set exactly outside managed instances.
\<close>

theorem extension_init_outcome:
  "case extension_init x of
     Panic p \<Rightarrow> MaxDataQueueLength (fst (GetConfig x)) < 0 \<and> p = MakeChanSizeOutOfRange
   | Hang \<Rightarrow> False
   | Ret ex \<Rightarrow>
       0 \<le> MaxDataQueueLength (fst (GetConfig x)) \<and> chan_open (ex_dataQueue ex) \<and> contents (ex_dataQueue ex) = []
       \<and> chan_cap (ex_dataQueue ex) = MaxDataQueueLength (fst (GetConfig x))
       \<and> isManagedInstance ex = (os_Getenv x ''AWS_LAMBDA_INITIALIZATION_TYPE'' = ''lambda-managed-instances'')
       \<and> (ex_consumer ex = None) = isManagedInstance ex"
  by (auto simp: extension_init_def make_chan_def chan_ok_def contents_def Let_def split: prod.splits outcome.splits)

text \<open>An outside in which every request is answered by a shutdown event.\<close>

definition shutdown_body :: bytes where
  "shutdown_body = ''{\"eventType\":\"SHUTDOWN\"}''"

definition sample_shutdown_ext :: ext where
  "sample_shutdown_ext = sample_ext\<lparr>http_Do :=
     (\<lambda>n rq. Inr \<lparr>StatusCode = 200, rs_header = [], rs_body = Inr shutdown_body\<rparr>)\<rparr>"

lemma shutdown_body_decodes:
  "unmarshal_struct assign_NextEventResponse zero_NextEventResponse shutdown_body
     = Inr (zero_NextEventResponse\<lparr>EventType := ''SHUTDOWN''\<rparr>)"
  by code_simp

lemma sample_shutdown_next: "shutdown_next sample_shutdown_ext"
  by (simp add: shutdown_next_def nextEvent_def api_op_def NextEvent_def decoded_def makeCall_eq
      MakeRequestWithContext_def do_http_def Let_def sample_shutdown_ext_def sample_ext_def header_Get_def
      shutdown_body_decodes)

definition sample_extension :: extension where
  "sample_extension =
     \<lparr>ex_config = fst (GetConfig sample_shutdown_ext), isManagedInstance = False,
      ex_dataQueue = \<lparr>ch_cap = 20, ch_buf = [], ch_sendq = [], ch_closed = False\<rparr>, ex_flushSignal = None,
      ex_producer = Some (NewTaskProducer \<lparr>ch_cap = 20, ch_buf = [], ch_sendq = [], ch_closed = False\<rparr>),
      ex_managedProducer = None,
      ex_consumer = Some (NewTaskConsumer sample_shutdown_ext (fst (GetConfig sample_shutdown_ext))),
      ex_managedConsumer = None, extensionClient = NewClient [] ''sumologic-extension''\<rparr>"

lemma sample_extension_fields:
  "MaxDataQueueLength (fst (GetConfig sample_shutdown_ext)) = 20"
  "KMSKeyId (fst (GetConfig sample_shutdown_ext)) = []"
  "os_Getenv sample_shutdown_ext ''AWS_LAMBDA_INITIALIZATION_TYPE'' = []"
  "os_Getenv sample_shutdown_ext ''AWS_LAMBDA_RUNTIME_API'' = []"
  "filepath_Base (os_Arg0 sample_shutdown_ext) = ''sumologic-extension''"
  by code_simp+

lemma sample_extension_init: "extension_init sample_shutdown_ext = Ret sample_extension"
  using sample_extension_fields
  by (cases "GetConfig sample_shutdown_ext")
     (simp add: extension_init_def make_chan_def sample_extension_def)

definition sample_turn :: turn where
  "sample_turn = \<lparr>ctx_done = False, arrivals =
     [\<lparr>in_path = ''/'', in_method = ''POST'', in_body = sample_payload, in_err = None\<rparr>],
     late_arrivals = [\<lparr>in_path = ''/'', in_method = ''POST'', in_body = sample_payload, in_err = None\<rparr>]\<rparr>"

text \<open>
  C38. On managed instances the main goroutine panics when it should flush: the variable \<open>consumer\<close> is
  nil there, so a cancelled context or a shutdown event ends in a nil interface call, from which
  \<open>main\<close> recovers by asking for another event. Nothing in the data queue is flushed on that path.
\<close>

theorem managed_shutdown_panics:
  assumes "extension_init x = Ret ex" and "isManagedInstance ex"
    and "ctx_done t \<or> shutdown_next x"
  shows "\<exists>st'. eventLoop x ex (t # ts) st = (Panic NilInterfaceCall, st') \<and> p_queue st' = p_queue st
    \<and> (\<exists>h. w_http (p_world st') = w_http (p_world st) @ h) \<and> w_puts (p_world st') = w_puts (p_world st)"
proof -
  have nil: "ex_consumer ex = None" using extension_init_standard(3) [OF assms(1)] assms(2) by simp
  show ?thesis
  proof (cases "ctx_done t")
    case True
    with nil assms(2) show ?thesis by (simp add: on_consumer_def)
  next
    case False
    then obtain resp st2 where ev: "nextEvent x st = (Inr resp, st2)" "EventType resp = ''SHUTDOWN''"
      using assms(3) unfolding shutdown_next_def by blast
    have "eventLoop x ex (t # ts) st = (Panic NilInterfaceCall, st2)"
      using False nil assms(2) ev by (simp add: on_consumer_def Shutdown_def)
    with nextEvent_queue [OF ev(1)] nextEvent_log [OF ev(1)] show ?thesis by auto
  qed
qed

definition sample_managed_ext :: ext where
  "sample_managed_ext = sample_shutdown_ext\<lparr>os_LookupEnv :=
     (\<lambda>k. if k = ''AWS_LAMBDA_INITIALIZATION_TYPE'' then Some ''lambda-managed-instances'' else None)\<rparr>"

theorem managed_shutdown_panics_witness:
  "\<exists>ex st'. extension_init sample_managed_ext = Ret ex
     \<and> eventLoop sample_managed_ext ex [\<lparr>ctx_done = True, arrivals = [], late_arrivals = []\<rparr>] (initial_state ex sample_world)
       = (Panic NilInterfaceCall, st')"
proof -
  have "MaxDataQueueLength (fst (GetConfig sample_managed_ext)) = 20" by code_simp
  moreover have "os_Getenv sample_managed_ext ''AWS_LAMBDA_INITIALIZATION_TYPE'' = ''lambda-managed-instances''"
    by code_simp
  ultimately obtain ex where init: "extension_init sample_managed_ext = Ret ex" and "isManagedInstance ex"
    by (cases "GetConfig sample_managed_ext") (simp add: extension_init_def make_chan_def Let_def)
  from managed_shutdown_panics [OF this, of "\<lparr>ctx_done = True, arrivals = [], late_arrivals = []\<rparr>" "[]" "initial_state ex sample_world"] init
  show ?thesis by (auto simp del: eventLoop.simps)
qed

text \<open>
  C39. One payload with a \<open>null\<close> element, or with a \<open>platform.report\<close> without metrics, ends the extension: the
  turn panics, everything that was queued with it is gone without having been sent, and \<open>main\<close> returns
  after one more request for an event.
\<close>

theorem unsafe_payload_ends_extension:
  assumes "extension_init x = Ret ex" and "\<not> isManagedInstance ex" and "\<not> ctx_done t"
    and "chan_open (p_queue st)"
    and "\<not> list_all safe_item (all_items (contents (p_queue st) @ ingested (arrivals t)))"
  shows "\<exists>p st'. eventLoop x ex (t # ts) st = (Panic p, st') \<and> contents (p_queue st') = []
    \<and> w_http (p_world st') = w_http (p_world st) \<and> w_puts (p_world st') = w_puts (p_world st)"
proof -
  let ?cfg = "fst (GetConfig x)" and ?st = "deliver (arrivals t) st"
  have consumer: "ex_consumer ex = Some (NewTaskConsumer x ?cfg)"
    using extension_init_standard(3) [OF assms(1)] assms(2) by simp
  note st = deliver_simps [OF assms(4), of "arrivals t"]
  obtain p w1 where
    send: "SendAllLogs x (NewLogSenderClient ?cfg) (contents (p_queue ?st)) (p_world ?st) = (Panic p, w1)"
    and same: "same_effects (p_world ?st) w1"
    using SendAllLogs_panics assms(5) st(2) by metis
  have "on_consumer ex DrainQueue ?st = (Panic p, ?st\<lparr>p_world := w1, p_queue := emptied (p_queue ?st)\<rparr>)"
    using on_consumer_drain [OF consumer st(1)] send by (simp add: after_send_def)
  with assms(2,3) same st(3) show ?thesis by (auto simp: same_effects_def)
qed

theorem unsafe_payload_ends_extension_witness:
  "\<exists>p st'. eventLoop sample_shutdown_ext sample_extension
      [\<lparr>ctx_done = False, arrivals =
         [\<lparr>in_path = ''/'', in_method = ''POST'', in_body = ''[null]'', in_err = None\<rparr>], late_arrivals = []\<rparr>]
      (initial_state sample_extension sample_world) = (Panic p, st')"
proof -
  let ?t = "\<lparr>ctx_done = False, arrivals =
         [\<lparr>in_path = ''/'', in_method = ''POST'', in_body = ''[null]'', in_err = None\<rparr>], late_arrivals = []\<rparr>"
  let ?st = "initial_state sample_extension sample_world"
  have arrived: "contents (p_queue ?st) @ ingested (arrivals ?t) = [''[null]'']" by code_simp
  have "\<not> list_all safe_item (all_items (contents (p_queue ?st) @ ingested (arrivals ?t)))"
    unfolding arrived by code_simp
  moreover have "\<not> isManagedInstance sample_extension" by (simp add: sample_extension_def)
  moreover have "chan_open (p_queue ?st)" by code_simp
  moreover have "\<not> ctx_done ?t" by simp
  ultimately show ?thesis using unsafe_payload_ends_extension [OF sample_extension_init] by blast
qed

text \<open>
  \<open>main\<close> never ends in a panic of the loop, whatever the runtime, the server and the payloads do; and when
  the registration, the subscription or the first request for an event fails, it returns with the
  data queue as it was.
\<close>

theorem main_recovers:
  "case fst (main x ex ts st) of Panic p \<Rightarrow> False | Hang \<Rightarrow> True
   | Ret r \<Rightarrow> (case runTimeAPIInit x ex st of
       (Inl err, st1) \<Rightarrow> main x ex ts st = (Ret Returned, st1) \<and> p_queue st1 = p_queue st | (Inr _, _) \<Rightarrow> True)"
proof -
  have "p_queue st1 = p_queue st" if "runTimeAPIInit x ex st = (r, st1)" for r st1
    using that nextEvent_queue
    by (fastforce simp: runTimeAPIInit_def api_op_def Let_def split: prod.splits sum.splits if_splits)
  then show ?thesis
    by (auto simp: main_def processEvents_def split: prod.splits sum.splits outcome.splits)
qed

end
