(* ===== verification/Go_Float_Facts.thy ===== *)
theory Go_Float_Facts
  imports Go_Float Complex_Main
begin

text \<open>
  Reading back what was written. Rounding is characterised over the reals: \<open>round_ratio\<close> depends only on the
  quotient of its arguments, its results are canonical, and a decimal close enough to a canonical
  value rounds to it. Seventeen digits are always close enough, so the shortest digits read as
  the value they were made from.
\<close>

section \<open>Rounding over the reals\<close>

definition scale_of :: "real \<Rightarrow> int \<Rightarrow> bool" where
  "scale_of v k \<longleftrightarrow> - 1074 \<le> k \<and> v < 2 ^ 53 * 2 powi k \<and> (k = - 1074 \<or> 2 ^ 52 * 2 powi k \<le> v)"

definition half_even :: "real \<Rightarrow> int" where
  "half_even t =
     (if t - \<lfloor>t\<rfloor> < 1 / 2 then \<lfloor>t\<rfloor> else if 1 / 2 < t - \<lfloor>t\<rfloor> then \<lfloor>t\<rfloor> + 1
      else if even \<lfloor>t\<rfloor> then \<lfloor>t\<rfloor> else \<lfloor>t\<rfloor> + 1)"

definition pack :: "int \<Rightarrow> int \<Rightarrow> (int \<times> int) option" where
  "pack m k =
     (let (m', k') = (if m = 2 ^ 53 then (2 ^ 52, k + 1) else (m, k))
      in if k' > 971 then None else if m' = 0 then Some (0, 0) else Some (m', k'))"

lemma powi_Suc: "(2::real) powi (k + 1) = 2 * 2 powi k"
  by (simp add: power_int_add)

lemma powi_mult: "(2::real) powi j * 2 powi k = 2 powi (j + k)"
  by (simp add: power_int_add)

lemma powi_mono: "j \<le> k \<Longrightarrow> (2::real) powi j \<le> 2 powi k"
  by (simp add: power_int_increasing)

lemma scale_of_unique:
  assumes "scale_of v j" and "scale_of v k"
  shows "j = k"
proof -
  have False if "scale_of v a" "scale_of v b" "a < b" for a b
  proof -
    have "2 ^ 52 * (2 powi (a + 1)) \<le> 2 ^ 52 * (2::real) powi b"
      using that(3) by (intro mult_left_mono powi_mono) simp_all
    then show False using that by (auto simp: scale_of_def powi_Suc)
  qed
  with assms show ?thesis by (meson linorder_neqE)
qed

lemma round_half_even_real:
  assumes "0 < den"
  shows "round_half_even num den = half_even (of_int num / of_int den)"
proof -
  let ?t = "of_int num / of_int den :: real"
  have fl: "\<lfloor>?t\<rfloor> = num div den" by (simp add: floor_divide_of_int_eq)
  have "?t - of_int (num div den) = of_int (num mod den) / of_int den"
  proof -
    have "num = num div den * den + num mod den" by simp
    then have "(of_int num :: real) = of_int (num div den) * of_int den + of_int (num mod den)"
      by (metis of_int_add of_int_mult)
    with assms show ?thesis by (simp add: field_simps)
  qed
  moreover have "of_int (num mod den) / of_int den < (1/2::real) \<longleftrightarrow> 2 * (num mod den) < den"
    "(1/2::real) < of_int (num mod den) / of_int den \<longleftrightarrow> den < 2 * (num mod den)"
    using assms by (simp_all add: field_simps) linarith+
  ultimately show ?thesis
    unfolding half_even_def fl round_half_even_def Let_def by simp
qed

lemma half_even_near:
  assumes "\<bar>t - of_int m\<bar> < 1 / 2"
  shows "half_even t = m"
proof (cases "of_int m \<le> t")
  case True
  with assms have "\<lfloor>t\<rfloor> = m" by linarith
  with assms True show ?thesis by (simp add: half_even_def)
next
  case False
  with assms have fl: "\<lfloor>t\<rfloor> = m - 1" by linarith
  have "1 / 2 < t - of_int (m - 1)" using assms False by linarith
  with fl show ?thesis by (simp add: half_even_def)
qed

lemma half_even_bounds:
  "of_int a \<le> t \<Longrightarrow> a \<le> half_even t"
  "t \<le> of_int b \<Longrightarrow> half_even t \<le> b"
proof -
  assume "of_int a \<le> t"
  then show "a \<le> half_even t" by (simp add: half_even_def le_floor_iff) linarith
next
  assume t: "t \<le> of_int b"
  then have "\<lfloor>t\<rfloor> \<le> b" by linarith
  moreover have "\<lfloor>t\<rfloor> = b \<Longrightarrow> t - of_int \<lfloor>t\<rfloor> < 1 / 2" using t by linarith
  ultimately show "half_even t \<le> b" by (cases "\<lfloor>t\<rfloor> = b") (auto simp: half_even_def)
qed

section \<open>The binary exponent\<close>

lemma bitlen_gt: "n < 2 ^ nat (bitlen n)"
proof (induction n rule: bitlen.induct)
  case (1 n)
  show ?case
  proof (cases "n \<le> 0")
    case False
    with 1 have "n div 2 < 2 ^ nat (bitlen (n div 2))" by simp
    then have "n < 2 * 2 ^ nat (bitlen (n div 2))" by linarith
    moreover have "nat (bitlen n) = Suc (nat (bitlen (n div 2)))"
      using False bitlen_nonneg [of "n div 2"] by (simp add: bitlen.simps [of n] Suc_nat_eq_nat_zadd1)
    ultimately show ?thesis by simp
  qed (simp add: order.strict_trans1)
qed

lemma bitlen_pos: "0 < n \<Longrightarrow> 1 \<le> bitlen n"
  using bitlen_nonneg [of "n div 2"] by (simp add: bitlen.simps [of n])

lemma bitlen_real:
  assumes "0 < n"
  shows "2 powi (bitlen n - 1) \<le> real_of_int n" and "real_of_int n < 2 powi bitlen n"
proof -
  have "real_of_int (2 ^ nat (bitlen n - 1)) \<le> of_int n"
    using bitlen_le [OF assms] by (simp only: of_int_le_iff)
  then show "2 powi (bitlen n - 1) \<le> real_of_int n"
    using bitlen_pos [OF assms] by (simp add: power_int_def)
  have "of_int n < real_of_int (2 ^ nat (bitlen n))"
    using bitlen_gt [of n] by (simp only: of_int_less_iff)
  then show "real_of_int n < 2 powi bitlen n"
    using bitlen_nonneg [of n] by (simp add: power_int_def)
qed

lemma powi_52: "(2::real) powi 52 = 2 ^ 52" and powi_54: "(2::real) powi 54 = 2 ^ 54"
  by (simp_all add: power_int_def)

lemma quotient_bitlen:
  assumes "0 < num" and "0 < den"
  defines "v \<equiv> of_int num / of_int den :: real" and "K \<equiv> bitlen num - bitlen den - 53"
  shows "2 ^ 52 * 2 powi K < v" and "v < 2 ^ 54 * 2 powi K"
proof -
  note n = bitlen_real [OF assms(1)] and d = bitlen_real [OF assms(2)]
  have dpos: "0 < real_of_int den" using assms(2) by simp
  have "2 ^ 52 * 2 powi K * 2 powi bitlen den = (2::real) powi (bitlen num - 1)"
    unfolding K_def powi_52 [symmetric] powi_mult by simp
  moreover have "2 ^ 52 * 2 powi K * of_int den < 2 ^ 52 * 2 powi K * (2::real) powi bitlen den"
    using d(2) by simp
  ultimately have "2 ^ 52 * 2 powi K * of_int den < (of_int num :: real)" using n(1) by linarith
  then show "2 ^ 52 * 2 powi K < v" using dpos by (simp add: v_def field_simps)
  have "2 ^ 54 * 2 powi K * 2 powi (bitlen den - 1) = (2::real) powi bitlen num"
    unfolding K_def powi_54 [symmetric] powi_mult by simp
  moreover have "2 ^ 54 * 2 powi K * (2::real) powi (bitlen den - 1) \<le> 2 ^ 54 * 2 powi K * of_int den"
    using d(1) by simp
  ultimately have "of_int num < 2 ^ 54 * 2 powi K * real_of_int den" using n(2) by linarith
  then show "v < 2 ^ 54 * 2 powi K" using dpos by (simp add: v_def field_simps)
qed

definition scaled :: "int \<Rightarrow> int \<Rightarrow> int \<Rightarrow> int \<times> int" where
  "scaled num den k = (if k \<ge> 0 then (num, den * 2 ^ nat k) else (num * 2 ^ nat (- k), den))"

lemma scaled_real:
  "of_int (fst (scaled num den k)) / of_int (snd (scaled num den k)) = (of_int num / of_int den / 2 powi k :: real)"
  by (simp add: scaled_def power_int_def field_simps)

lemma scaled_pos: "0 < num \<Longrightarrow> 0 < den \<Longrightarrow> 0 < fst (scaled num den k) \<and> 0 < snd (scaled num den k)"
  by (simp add: scaled_def)

lemma round_ratio_pack:
  "round_ratio num den =
     (let k0 = max (bitlen num - bitlen den - 53) (- 1074);
          q0 = fst (scaled num den k0) div snd (scaled num den k0);
          k = (if q0 \<ge> 2 ^ 53 then k0 + 1 else k0)
      in pack (round_half_even (fst (scaled num den k)) (snd (scaled num den k))) k)"
  unfolding round_ratio_def pack_def Let_def scaled_def by (rule refl)

lemma round_ratio_real:
  assumes "0 < num" and "0 < den"
  shows "\<exists>k. scale_of (of_int num / of_int den) k
    \<and> round_ratio num den = pack (half_even (of_int num / of_int den / 2 powi k)) k"
proof -
  define v K where "v = (of_int num / of_int den :: real)" and "K = bitlen num - bitlen den - 53"
  note b = quotient_bitlen [OF assms, folded v_def K_def]
  define k0 q0 where "k0 = max K (- 1074)" and "q0 = fst (scaled num den k0) div snd (scaled num den k0)"
  define k where "k = (if q0 \<ge> 2 ^ 53 then k0 + 1 else k0)"
  have q0: "q0 = \<lfloor>v / 2 powi k0\<rfloor>"
    unfolding q0_def v_def scaled_real [symmetric] floor_divide_of_int_eq ..
  have top: "v < 2 ^ 54 * 2 powi k0"
    using b(2) powi_mono [of K k0] by (simp add: k0_def)
  have "scale_of v k"
  proof (cases "q0 \<ge> 2 ^ 53")
    case True
    then have "2 ^ 53 \<le> v / 2 powi k0" unfolding q0 by (simp add: le_floor_iff)
    then have "2 ^ 53 * 2 powi k0 \<le> v" by (simp add: field_simps)
    with True top show ?thesis by (simp add: scale_of_def k_def powi_Suc k0_def)
  next
    case False
    then have "v / 2 powi k0 < 2 ^ 53" unfolding q0 by (simp add: floor_less_iff not_le)
    then have "v < 2 ^ 53 * 2 powi k0" by (simp add: field_simps)
    with False b(1) show ?thesis by (auto simp: scale_of_def k_def k0_def max_def)
  qed
  moreover have "round_ratio num den = pack (half_even (v / 2 powi k)) k"
    unfolding round_ratio_pack Let_def K_def [symmetric] k0_def [symmetric] q0_def [symmetric] k_def [symmetric]
    using scaled_pos [OF assms, of k] by (simp add: round_half_even_real scaled_real v_def)
  ultimately show ?thesis by (auto simp: v_def)
qed

lemma round_ratio_scale:
  assumes "0 < num" and "0 < den" and "scale_of (of_int num / of_int den) k"
  shows "round_ratio num den = pack (half_even (of_int num / of_int den / 2 powi k)) k"
  using round_ratio_real [OF assms(1,2)] scale_of_unique [OF assms(3)] by metis

lemma round_ratio_cong:
  assumes "0 < num" "0 < den" "0 < num'" "0 < den'"
    and "of_int num / of_int den = (of_int num' / of_int den' :: real)"
  shows "round_ratio num den = round_ratio num' den'"
  using round_ratio_real [OF assms(1,2)] round_ratio_scale [OF assms(3,4)] assms(5) by auto

section \<open>Canonical values\<close>

definition canonical :: "int \<Rightarrow> int \<Rightarrow> bool" where
  "canonical m k \<longleftrightarrow>
     m = 0 \<and> k = 0 \<or>
     0 < m \<and> m < 2 ^ 53 \<and> - 1074 \<le> k \<and> k \<le> 971 \<and> (k = - 1074 \<or> 2 ^ 52 \<le> m)"

fun canonical_float :: "float64 \<Rightarrow> bool" where
  "canonical_float (Fin neg m k) = canonical m k"
| "canonical_float _ = False"

lemma pack_canonical:
  assumes "pack m k = Some (m', k')" and "0 \<le> m" and "m \<le> 2 ^ 53" and "- 1074 \<le> k"
    and "k = - 1074 \<or> 2 ^ 52 \<le> m"
  shows "canonical m' k'"
  using assms by (auto simp: pack_def canonical_def split: if_splits)

lemma scale_of_mantissa:
  assumes "0 < v" and "scale_of v k"
  shows "0 \<le> half_even (v / 2 powi k)" and "half_even (v / 2 powi k) \<le> 2 ^ 53"
    and "k = - 1074 \<or> 2 ^ 52 \<le> half_even (v / 2 powi k)"
proof -
  let ?t = "v / 2 powi k"
  have "0 \<le> ?t" using assms(1) by simp
  then show "0 \<le> half_even ?t" using half_even_bounds(1) [of 0 ?t] by simp
  have "?t \<le> 2 ^ 53" using assms(2) by (simp add: scale_of_def field_simps)
  then show "half_even ?t \<le> 2 ^ 53" using half_even_bounds(2) [of ?t "2 ^ 53"] by simp
  have "2 ^ 52 \<le> ?t" if "k \<noteq> - 1074"
    using assms(2) that by (simp add: scale_of_def field_simps)
  then show "k = - 1074 \<or> 2 ^ 52 \<le> half_even ?t" using half_even_bounds(1) [of "2 ^ 52" ?t] by auto
qed

lemma round_ratio_canonical:
  assumes "0 < num" and "0 < den" and "round_ratio num den = Some (m, k)"
  shows "canonical m k"
proof -
  let ?v = "of_int num / of_int den :: real"
  obtain j where j: "scale_of ?v j" "pack (half_even (?v / 2 powi j)) j = Some (m, k)"
    using round_ratio_real [OF assms(1,2)] assms(3) by auto
  have "0 < ?v" using assms(1,2) by simp
  from scale_of_mantissa [OF this j(1)] j show ?thesis
    by (intro pack_canonical [OF j(2)]) (simp_all add: scale_of_def)
qed

lemma round_decimal_canonical: "0 \<le> d \<Longrightarrow> round_decimal d e = Some (m, k) \<Longrightarrow> canonical m k"
  by (auto simp: round_decimal_def canonical_def [of 0 0] intro!: round_ratio_canonical split: if_splits)

lemma float_of_decimal_canonical:
  "0 \<le> d \<Longrightarrow> float_of_decimal neg d e = Some f \<Longrightarrow> canonical_float f"
  by (auto simp: float_of_decimal_def intro: round_decimal_canonical)

lemma canonical_is_finite: "canonical_float f \<Longrightarrow> is_finite f"
  by (cases f) auto

text \<open>A value closer to a canonical one than half a unit in the last place rounds to it.\<close>

lemma near_rounds:
  assumes c: "canonical m k" "0 < m" and pos: "0 < num" "0 < den"
    and near: "\<bar>of_int num / of_int den - of_int m * 2 powi k\<bar> < (2::real) powi k / (if m = 2 ^ 52 then 4 else 2)"
  shows "round_ratio num den = Some (m, k)"
proof -
  define v P where "v = (of_int num / of_int den :: real)" and "P = (2::real) powi k"
  have P: "0 < P" by (simp add: P_def)
  have m: "1 \<le> m" "m \<le> 2 ^ 53 - 1" "- 1074 \<le> k" "k \<le> 971" "k = - 1074 \<or> 2 ^ 52 \<le> m"
    using c by (auto simp: canonical_def)
  have mP: "of_int m * P \<le> (2 ^ 53 - 1) * P" using m P by (intro mult_right_mono) simp_all
  have v: "\<bar>v - of_int m * P\<bar> < P / (if m = 2 ^ 52 then 4 else 2)" using near by (simp add: v_def P_def)
  then have half: "\<bar>v - of_int m * P\<bar> < P / 2" using P by (simp split: if_splits)
  show ?thesis
  proof (cases "k = - 1074 \<or> 2 ^ 52 < m \<or> 2 ^ 52 * P \<le> v")
    case True
    have low: "k = - 1074 \<or> 2 ^ 52 * P \<le> v"
    proof (cases "2 ^ 52 < m")
      case True
      then have "(2 ^ 52 + 1) * P \<le> of_int m * P" using P by (intro mult_right_mono) simp_all
      then have "2 ^ 52 * P + P \<le> of_int m * P" by (simp add: distrib_right)
      with half P have "2 ^ 52 * P \<le> v" by linarith
      then show ?thesis ..
    qed (use True in auto)
    have "of_int m * P \<le> 2 ^ 53 * P - P" using mP by (simp only: left_diff_distrib mult_1_left)
    with half P have "v < 2 ^ 53 * P" by linarith
    with low m(3) have "scale_of v k" by (simp add: scale_of_def P_def)
    moreover have "half_even (v / P) = m"
    proof (rule half_even_near)
      have "v / P - of_int m = (v - of_int m * P) / P" using P by (simp add: field_simps)
      then show "\<bar>v / P - of_int m\<bar> < 1 / 2" using half P by (simp add: abs_divide field_simps)
    qed
    ultimately show ?thesis
      using round_ratio_scale [OF pos, of k] m by (simp add: v_def P_def pack_def)
  next
    case False
    then have k: "k \<noteq> - 1074" and meq: "m = 2 ^ 52" and below: "v < 2 ^ 52 * P" using m(5) by auto
    have Q: "P = 2 * 2 powi (k - 1)" using powi_Suc [of "k - 1"] by (simp add: P_def)
    have "\<bar>v - 2 ^ 52 * P\<bar> < P / 4" using v meq by simp
    then have quarter: "2 ^ 52 * P - P / 4 < v" by linarith
    have "scale_of v (k - 1)"
      using k m(3) below quarter P by (simp add: scale_of_def Q algebra_simps)
    moreover have "half_even (v / 2 powi (k - 1)) = 2 ^ 53"
    proof (rule half_even_near)
      have "v / 2 powi (k - 1) < 2 ^ 53" using below by (simp add: Q field_simps)
      moreover have "2 ^ 53 - 1 / 2 < v / 2 powi (k - 1)" using quarter by (simp add: Q field_simps)
      ultimately show "\<bar>v / 2 powi (k - 1) - of_int (2 ^ 53)\<bar> < 1 / 2" by simp
    qed
    ultimately show ?thesis
      using round_ratio_scale [OF pos, of "k - 1"] m meq by (simp add: v_def pack_def)
  qed
qed

section \<open>Decimals\<close>

abbreviation decimal :: "int \<Rightarrow> int \<Rightarrow> real" where
  "decimal d e \<equiv> of_int d * 10 powi e"

definition dec_ratio :: "int \<Rightarrow> int \<Rightarrow> int \<times> int" where
  "dec_ratio d e = (if e \<ge> 0 then (d * 10 ^ nat e, 1) else (d, 10 ^ nat (- e)))"

lemma dec_ratio_facts:
  assumes "0 < d"
  shows "0 < fst (dec_ratio d e)" "0 < snd (dec_ratio d e)"
    and "of_int (fst (dec_ratio d e)) / of_int (snd (dec_ratio d e)) = decimal d e"
    and "round_decimal d e = round_ratio (fst (dec_ratio d e)) (snd (dec_ratio d e))"
  using assms by (auto simp: dec_ratio_def round_decimal_def power_int_def field_simps)

lemma round_decimal_cong:
  "0 < d \<Longrightarrow> 0 < d' \<Longrightarrow> decimal d e = decimal d' e' \<Longrightarrow> round_decimal d e = round_decimal d' e'"
  using dec_ratio_facts [of d e] dec_ratio_facts [of d' e'] round_ratio_cong by metis

lemma dec_up_bounds:
  "0 < den \<Longrightarrow> 0 < num \<Longrightarrow>
     of_int num / of_int den < (10::real) powi dec_up num den
     \<and> (den \<le> num \<longrightarrow> 10 powi (dec_up num den - 1) \<le> (of_int num / of_int den :: real))"
proof (induction num den rule: dec_up.induct)
  case (1 num den)
  show ?case
  proof (cases "num < den")
    case True
    with 1 show ?thesis by (simp add: dec_up.simps [of num den])
  next
    case False
    let ?u = "dec_up num (den * 10)"
    have u: "dec_up num den = ?u + 1" using False 1(2) by (simp add: dec_up.simps [of num den])
    have IH: "of_int num / of_int (den * 10) < (10::real) powi ?u"
      "den * 10 \<le> num \<Longrightarrow> 10 powi (?u - 1) \<le> (of_int num / of_int (den * 10) :: real)"
      using 1 False by auto
    have "of_int num / of_int den < (10::real) powi (?u + 1)"
      using IH(1) 1(2) by (simp add: power_int_add field_simps)
    moreover have "10 powi ?u \<le> (of_int num / of_int den :: real)"
    proof (cases "den * 10 \<le> num")
      case True
      from IH(2) [OF this] have "10 * 10 powi (?u - 1) \<le> (of_int num / of_int den :: real)"
        using 1(2) by (simp add: field_simps)
      then show ?thesis by (simp add: power_int_diff)
    next
      case f: False
      then have "?u = 0" by (simp add: dec_up.simps [of num "den * 10"])
      with False 1(2) show ?thesis by simp
    qed
    ultimately show ?thesis by (simp add: u)
  qed
qed

lemma dec_down_bounds:
  "0 < num \<Longrightarrow> num < den \<Longrightarrow>
     of_int num / of_int den < (10::real) powi dec_down num den
     \<and> 10 powi (dec_down num den - 1) \<le> (of_int num / of_int den :: real)"
proof (induction num den rule: dec_down.induct)
  case (1 num den)
  show ?case
  proof (cases "den \<le> num * 10")
    case True
    then have "dec_down num den = 0" by (simp add: dec_down.simps [of num den])
    moreover have "1 / 10 \<le> (of_int num / of_int den :: real)"
      using True 1(2,3) by (simp add: field_simps)
    ultimately show ?thesis using 1(2,3) by (simp add: power_int_minus field_simps)
  next
    case False
    let ?u = "dec_down (num * 10) den"
    have u: "dec_down num den = ?u - 1" using False 1(2) by (simp add: dec_down.simps [of num den])
    have IH: "of_int (num * 10) / of_int den < (10::real) powi ?u"
      "10 powi (?u - 1) \<le> (of_int (num * 10) / of_int den :: real)"
      using 1 False by auto
    have p: "(10::real) powi ?u = 10 * 10 powi (?u - 1)" "(10::real) powi (?u - 1) = 10 * 10 powi (?u - 1 - 1)"
      by (simp_all add: power_int_diff)
    have t: "of_int (num * 10) / of_int den = 10 * (of_int num / of_int den :: real)" by simp
    from IH show ?thesis unfolding t u by (simp only: p) linarith
  qed
qed

lemma decimal_point_bounds:
  assumes "0 < num" and "0 < den"
  shows "of_int num / of_int den < (10::real) powi decimal_point num den"
    and "10 powi (decimal_point num den - 1) \<le> (of_int num / of_int den :: real)"
  using dec_up_bounds [OF assms(2,1)] dec_down_bounds [OF assms(1)]
  by (auto simp: decimal_point_def not_less)

section \<open>Shortest digits\<close>

definition cand_ratio :: "int \<Rightarrow> int \<Rightarrow> int \<Rightarrow> int \<times> int" where
  "cand_ratio num den p = (if p \<ge> 0 then (num * 10 ^ nat p, den) else (num, den * 10 ^ nat (- p)))"

lemma cand_ratio_real:
  "0 < den \<Longrightarrow> of_int (fst (cand_ratio num den p)) / of_int (snd (cand_ratio num den p))
     = (of_int num / of_int den * 10 powi p :: real)"
  by (simp add: cand_ratio_def power_int_def field_simps)

lemma shortest_candidate_alt:
  "shortest_candidate m k num den p =
     (let a = fst (cand_ratio num den p); b = snd (cand_ratio num den p); lo = a div b;
          lo_ok = (round_decimal lo (- p) = Some (m, k));
          hi_ok = (round_decimal (lo + 1) (- p) = Some (m, k))
      in if lo_ok \<and> hi_ok then Some (if 2 * (a - lo * b) \<le> b then lo else lo + 1)
         else if lo_ok then Some lo
         else if hi_ok then Some (lo + 1)
         else None)"
  unfolding shortest_candidate_def cand_ratio_def Let_def by (cases "p \<ge> 0") simp_all

lemma shortest_candidate_sound:
  "shortest_candidate m k num den p = Some d \<Longrightarrow> round_decimal d (- p) = Some (m, k)"
  by (auto simp: shortest_candidate_alt Let_def split: if_splits)

lemma shortest_candidate_nonneg:
  "shortest_candidate m k num den p = Some d \<Longrightarrow> 0 \<le> num \<Longrightarrow> 0 < den \<Longrightarrow> 0 \<le> d"
  by (auto simp: shortest_candidate_alt Let_def cand_ratio_def pos_imp_zdiv_nonneg_iff split: if_splits)

lemma seventeen_digits_round:
  assumes c: "canonical m k" "0 < m" and v: "v = of_int m * (2::real) powi k"
    and V: "V = v * 10 powi p" "10 ^ 16 \<le> V" and d: "\<bar>of_int d - V\<bar> \<le> 1 / 2"
  shows "round_decimal d (- p) = Some (m, k)"
proof -
  define P where "P = (2::real) powi k"
  have P: "0 < P" by (simp add: P_def)
  have "(1::real) \<le> 10 ^ 16" by simp
  with V(2) d have "0 < (of_int d :: real)" by linarith
  then have dpos: "0 < d" by simp
  have m: "m < 2 ^ 53" using c by (auto simp: canonical_def)
  have vV: "v = V * 10 powi (- p)" using V(1) by (simp add: power_int_minus field_simps)
  have T: "0 < (10::real) powi (- p)" by simp
  have "10 powi (- p) * 10 ^ 16 \<le> (10::real) powi (- p) * V" using V(2) T by (intro mult_left_mono) simp_all
  then have t: "(10::real) powi (- p) \<le> v / 10 ^ 16" by (simp add: vV field_simps)
  have "decimal d (- p) - v = (of_int d - V) * 10 powi (- p)" by (simp add: vV left_diff_distrib)
  then have "\<bar>decimal d (- p) - v\<bar> = \<bar>of_int d - V\<bar> * 10 powi (- p)" by (simp add: abs_mult)
  also have "\<dots> \<le> 1 / 2 * 10 powi (- p)" using d T by (intro mult_right_mono) simp_all
  also have "\<dots> \<le> 1 / 2 * (v / 10 ^ 16)" using t by simp
  also have "\<dots> < P / (if m = 2 ^ 52 then 4 else 2)"
  proof (cases "m = 2 ^ 52")
    case True
    then show ?thesis using P by (simp add: v flip: P_def)
  next
    case False
    have "of_int m * P < 2 ^ 53 * P" using m P by (intro mult_strict_right_mono) simp_all
    then have "v < 2 ^ 53 * P" by (simp add: v P_def)
    with False P show ?thesis by simp
  qed
  finally have "\<bar>decimal d (- p) - of_int m * 2 powi k\<bar> < (2::real) powi k / (if m = 2 ^ 52 then 4 else 2)"
    by (simp only: v P_def)
  with near_rounds [OF c dec_ratio_facts(1,2) [OF dpos]] dec_ratio_facts(3,4) [OF dpos, of "- p"]
  show ?thesis by simp
qed

lemma candidate_at_seventeen:
  assumes "canonical m k" "0 < m" "0 < num" "0 < den" and "of_int num / of_int den = of_int m * (2::real) powi k"
  shows "shortest_candidate m k num den (17 - decimal_point num den) \<noteq> None"
proof -
  define p where "p = 17 - decimal_point num den"
  define V where "V = (of_int num / of_int den * 10 powi p :: real)"
  have "(10::real) powi 16 = 10 powi (decimal_point num den - 1) * 10 powi p" by (simp add: p_def flip: power_int_add)
  also have "\<dots> \<le> V" unfolding V_def
    by (intro mult_right_mono decimal_point_bounds assms) simp
  finally have V: "10 ^ 16 \<le> V" by (simp add: power_int_def)
  define lo where "lo = fst (cand_ratio num den p) div snd (cand_ratio num den p)"
  have "lo = \<lfloor>V\<rfloor>" unfolding V_def lo_def cand_ratio_real [OF assms(4), symmetric] floor_divide_of_int_eq ..
  then have "\<bar>of_int lo - V\<bar> \<le> 1 / 2 \<or> \<bar>of_int (lo + 1) - V\<bar> \<le> 1 / 2"
    unfolding of_int_add of_int_1 by linarith
  then have "round_decimal lo (- p) = Some (m, k) \<or> round_decimal (lo + 1) (- p) = Some (m, k)"
    using seventeen_digits_round [OF assms(1,2,5) _ V] V_def by auto
  then show ?thesis by (auto simp: shortest_candidate_alt Let_def p_def lo_def)
qed

lemma shortest_from_sound:
  assumes "canonical m k" "0 < m" "0 < num" "0 < den" "of_int num / of_int den = of_int m * (2::real) powi k"
    and "dp = decimal_point num den"
  shows "n \<le> 17 \<Longrightarrow> shortest_from m k num den dp n = (d, e) \<Longrightarrow> 0 \<le> d \<and> round_decimal d e = Some (m, k)"
  using assms
proof (induction m k num den dp n rule: shortest_from.induct)
  case (1 m k num den dp n)
  show ?case
  proof (cases "shortest_candidate m k num den (n - dp)")
    case None
    then have "n \<noteq> 17" using candidate_at_seventeen [of m k num den] 1 by auto
    with None 1(2) have "shortest_from m k num den dp n = shortest_from m k num den dp (n + 1)"
      by (subst shortest_from.simps) simp
    with None 1 \<open>n \<noteq> 17\<close> show ?thesis by simp
  next
    case (Some c)
    then have "shortest_from m k num den dp n = (c, dp - n)" by (subst shortest_from.simps) simp
    with shortest_candidate_sound [OF Some] shortest_candidate_nonneg [OF Some] 1 show ?thesis by simp
  qed
qed

end
