(* ===== verification/Json_Numbers.thy ===== *)
theory Json_Numbers
  imports Go_Json_Facts Go_Float_Facts
begin

text \<open>
  Numbers through \<open>encoding/json\<close>: the text that \<open>Marshal\<close> writes for a canonical \<open>float64\<close> is read by the parser
  as a number literal, up to the delimiter after it, and the literal decodes to the same value.
\<close>

section \<open>Digit strings\<close>

abbreviation digits :: "string \<Rightarrow> bool" where
  "digits s \<equiv> \<forall>c \<in> set s. is_digit c"

lemma is_digit_digit_char: "0 \<le> d \<Longrightarrow> d < 10 \<Longrightarrow> is_digit (digit_char d)"
  by (simp add: is_digit_def byte_in_def of_char_digit_char)

lemma digits_show_uint: "0 \<le> n \<Longrightarrow> digits (show_uint n)"
  using show_uint_digits is_digit_digit_char by blast

lemma digits_val_append: "digits_val (s @ t) n = digits_val t (digits_val s n)"
  by (induction s arbitrary: n) simp_all

lemma digits_val_zeros: "digits_val (replicate j (CHR ''0'')) n = n * 10 ^ j"
proof -
  have "digit_val (CHR ''0'') = Some 0" by (simp add: digit_val_def)
  then show ?thesis by (induction j arbitrary: n) simp_all
qed

lemma digits_val_show_uint: "0 \<le> n \<Longrightarrow> digits_val (show_uint n) 0 = n"
proof (induction n rule: show_uint.induct)
  case (1 n)
  show ?case
  proof (cases "n < 10")
    case True
    with 1 show ?thesis by (simp add: show_uint.simps [of n] digit_val_digit_char)
  next
    case False
    with 1 show ?thesis by (simp add: show_uint.simps [of n] digits_val_append digit_val_digit_char)
  qed
qed

lemma hd_show_uint: "0 < n \<Longrightarrow> hd (show_uint n) \<noteq> CHR ''0''"
proof (induction n rule: show_uint.induct)
  case (1 n)
  show ?case
  proof (cases "n < 10")
    case True
    have "of_char (digit_char n) = 48 + n" using True 1(2) by (simp add: of_char_digit_char)
    with True 1(2) show ?thesis by (auto simp: show_uint.simps [of n])
  next
    case False
    with 1 show ?thesis by (simp add: show_uint.simps [of n])
  qed
qed

lemma digits_val_nonneg: "0 \<le> n \<Longrightarrow> 0 \<le> digits_val s n"
proof (induction s arbitrary: n)
  case (Cons c s)
  have "0 \<le> (case digit_val c of Some d \<Rightarrow> d | None \<Rightarrow> 0)"
    by (auto simp: digit_val_bounds split: option.splits)
  with Cons show ?case by simp
qed simp

section \<open>The digits of a value\<close>

lemma strip_zeros:
  "\<exists>j. s = rev (dropWhile (\<lambda>c. c = CHR ''0'') (rev s)) @ replicate j (CHR ''0'')"
proof (induction s rule: rev_induct)
  case (snoc c s)
  show ?case
  proof (cases "c = CHR ''0''")
    case True
    let ?x = "rev (dropWhile (\<lambda>c. c = CHR ''0'') (rev s))"
    from snoc obtain j where j: "s = ?x @ replicate j (CHR ''0'')" ..
    have "s @ [c] = (?x @ replicate j (CHR ''0'')) @ [c]" using j by (rule arg_cong)
    then have "s @ [c] = ?x @ replicate (Suc j) (CHR ''0'')" using True by (simp add: replicate_append_same)
    moreover have "rev (dropWhile (\<lambda>c. c = CHR ''0'') (rev (s @ [c]))) = ?x" using True by simp
    ultimately have "s @ [c] = rev (dropWhile (\<lambda>c. c = CHR ''0'') (rev (s @ [c]))) @ replicate (Suc j) (CHR ''0'')"
      by (simp only:)
    then show ?thesis ..
  qed (simp add: exI [of _ 0])
qed simp

lemma shortest_digits:
  assumes "canonical m k" and "m \<noteq> 0"
  shows "\<exists>ds dp. shortest m k = (ds, dp) \<and> ds \<noteq> [] \<and> digits ds \<and> hd ds \<noteq> CHR ''0''
    \<and> 0 < digits_val ds 0 \<and> round_decimal (digits_val ds 0) (dp - int (length ds)) = Some (m, k)"
proof -
  have mpos: "0 < m" using assms by (auto simp: canonical_def)
  define num den where "num = (if k \<ge> 0 then m * 2 ^ nat k else m)" and "den = (if k \<ge> 0 then 1 else 2 ^ nat (- k) :: int)"
  have pos: "0 < num" "0 < den" using mpos by (simp_all add: num_def den_def)
  have val: "of_int num / of_int den = of_int m * (2::real) powi k"
    by (simp add: num_def den_def power_int_def field_simps)
  obtain d e where de: "shortest_from m k num den (decimal_point num den) 1 = (d, e)" by fastforce
  have d: "0 \<le> d" "round_decimal d e = Some (m, k)"
    using shortest_from_sound [OF assms(1) mpos pos val refl _ de] by simp_all
  have dpos: "0 < d" using d assms(2) by (cases "d = 0") (auto simp: round_decimal_def)
  define s ds where "s = show_uint d" and "ds = rev (dropWhile (\<lambda>c. c = CHR ''0'') (rev s))"
  obtain j where j: "s = ds @ replicate j (CHR ''0'')" using strip_zeros [of s] by (auto simp: ds_def)
  have hd: "hd s \<noteq> CHR ''0''" using hd_show_uint [OF dpos] by (simp add: s_def)
  have ds: "ds \<noteq> []"
  proof
    assume "ds = []"
    with j have "s = replicate j (CHR ''0'')" by simp
    moreover have "s \<noteq> []" by (simp add: s_def)
    ultimately show False using hd by (cases j) simp_all
  qed
  have dval: "d = digits_val ds 0 * 10 ^ j"
    using digits_val_show_uint [OF d(1)] by (simp add: s_def [symmetric] j digits_val_append digits_val_zeros)
  have short: "shortest m k = (ds, e + int (length s))"
    using de assms(2) dpos
    by (simp add: shortest_def Let_def num_def den_def show_int_def s_def [symmetric] ds_def split: if_splits)
  have vpos: "0 < digits_val ds 0" using dval dpos by (simp add: zero_less_mult_iff)
  have exp: "e + int (length s) - int (length ds) = e + int j" by (simp add: j)
  have "decimal (digits_val ds 0) (e + int j) = decimal d e"
    by (simp add: dval power_int_add)
  from round_decimal_cong [OF vpos dpos this] d(2)
  have "round_decimal (digits_val ds 0) (e + int (length s) - int (length ds)) = Some (m, k)"
    unfolding exp by simp
  moreover have "digits ds" using digits_show_uint [OF d(1)] j by (simp add: s_def [symmetric])
  moreover have "hd ds \<noteq> CHR ''0''" using hd ds j by simp
  ultimately show ?thesis using short ds vpos by blast
qed

section \<open>Number literals\<close>

definition number_end :: "string \<Rightarrow> bool" where
  "number_end r \<longleftrightarrow> r = [] \<or> \<not> is_digit (hd r) \<and> hd r \<notin> {CHR ''.'', CHR ''e'', CHR ''E''}"

definition frac_text :: "string \<Rightarrow> string" where
  "frac_text fp = (if fp = [] then [] else CHR ''.'' # fp)"

fun exp_text :: "int option \<Rightarrow> string" where
  "exp_text None = []"
| "exp_text (Some e) = CHR ''e'' # (if e < 0 then CHR ''-'' else CHR ''+'') # show_uint \<bar>e\<bar>"

lemma is_digit_not:
  "\<not> is_digit (CHR ''.'')" "\<not> is_digit (CHR ''e'')" "\<not> is_digit (CHR ''E'')" "\<not> is_digit (CHR ''-'')"
  "\<not> is_digit (CHR ''+'')" "\<not> is_digit (CHR '','')" "\<not> is_digit (CHR '']'')" "\<not> is_digit (CHR ''}'')"
  "is_digit (CHR ''0'')"
  by (simp_all add: is_digit_def byte_in_def)

lemma span_digits:
  assumes "digits ds" and "r = [] \<or> \<not> is_digit (hd r)"
  shows "takeWhile is_digit (ds @ r) = ds" and "dropWhile is_digit (ds @ r) = r"
  using assms by (induction ds) (cases r; simp)+

lemma parse_exp_text:
  assumes "number_end r"
  shows "parse_exp (exp_text ex @ r) = Some (ex, r)"
proof (cases ex)
  case None
  with assms show ?thesis by (auto simp: parse_exp_def number_end_def split: list.splits)
next
  case (Some e)
  have "r = [] \<or> \<not> is_digit (hd r)" using assms by (auto simp: number_end_def)
  note sp = span_digits [OF digits_show_uint [of "\<bar>e\<bar>"] this]
  with Some show ?thesis by (cases "e < 0") (simp_all add: parse_exp_def Let_def digits_val_show_uint)
qed

lemma parse_frac_text:
  assumes "digits fp" and "r = [] \<or> \<not> is_digit (hd r) \<and> hd r \<noteq> CHR ''.''"
  shows "parse_frac (frac_text fp @ r) = Some (fp, r)"
proof (cases "fp = []")
  case True
  with assms show ?thesis by (cases r) (simp_all add: parse_frac_def frac_text_def)
next
  case False
  have "r = [] \<or> \<not> is_digit (hd r)" using assms(2) by auto
  with span_digits [OF assms(1) this] False show ?thesis by (simp add: parse_frac_def frac_text_def)
qed

lemma parse_int_part_text:
  assumes "digits ip" and "ip = ''0'' \<or> ip \<noteq> [] \<and> hd ip \<noteq> CHR ''0''" and "r = [] \<or> \<not> is_digit (hd r)"
  shows "parse_int_part (ip @ r) = Some (ip, r)"
proof (cases "ip = ''0''")
  case False
  with assms obtain c cs where "ip = c # cs" "c \<noteq> CHR ''0''" "is_digit c" by (cases ip) auto
  with span_digits [OF assms(1,3)] show ?thesis by (simp add: parse_int_part_def)
qed (simp add: parse_int_part_def)

lemma exp_frac_start:
  assumes "number_end r"
  shows "exp_text ex @ r = [] \<or> \<not> is_digit (hd (exp_text ex @ r)) \<and> hd (exp_text ex @ r) \<noteq> CHR ''.''"
    and "frac_text fp @ exp_text ex @ r = [] \<or> \<not> is_digit (hd (frac_text fp @ exp_text ex @ r))"
  using assms by (cases ex; auto simp: number_end_def frac_text_def is_digit_not)+

lemma parse_number_text:
  assumes "digits ip" "ip = ''0'' \<or> ip \<noteq> [] \<and> hd ip \<noteq> CHR ''0''" "digits fp" "number_end r"
  shows "parse_number (sign_str neg @ ip @ frac_text fp @ exp_text ex @ r) = Some (JNum neg ip fp ex, r)"
proof -
  let ?t = "ip @ frac_text fp @ exp_text ex @ r"
  have ne: "ip \<noteq> []" using assms(2) by auto
  then have "is_digit (hd ip)" using assms(1) by simp
  then have "hd ip \<noteq> CHR ''-''" using is_digit_not(4) by metis
  have "parse_int_part ?t = Some (ip, frac_text fp @ exp_text ex @ r)"
    by (intro parse_int_part_text assms(1,2) exp_frac_start(2) assms(4))
  moreover have "parse_frac (frac_text fp @ exp_text ex @ r) = Some (fp, exp_text ex @ r)"
    by (intro parse_frac_text assms(3) exp_frac_start(1) assms(4))
  ultimately show ?thesis using parse_exp_text [OF assms(4), of ex] ne \<open>hd ip \<noteq> CHR ''-''\<close>
    by (cases neg) (simp_all add: parse_number_def Let_def sign_str_def)
qed

section \<open>The text of a number\<close>

text \<open>\<open>literal s D e\<close>: \<open>s\<close> is a number literal without sign whose value is \<open>D\<close> times ten to the power \<open>e\<close>.\<close>

definition literal :: "string \<Rightarrow> int \<Rightarrow> int \<Rightarrow> bool" where
  "literal s D e \<longleftrightarrow>
     (\<exists>ip fp ex. s = ip @ frac_text fp @ exp_text ex \<and> digits ip \<and> digits fp
        \<and> (ip = ''0'' \<or> ip \<noteq> [] \<and> hd ip \<noteq> CHR ''0'') \<and> 0 < digits_val (ip @ fp) 0
        \<and> decimal (digits_val (ip @ fp) 0) ((case ex of None \<Rightarrow> 0 | Some x \<Rightarrow> x) - int (length fp)) = decimal D e)"

lemma literalI:
  assumes "s = ip @ frac_text fp @ exp_text ex" "digits ip" "digits fp"
    "ip = ''0'' \<or> ip \<noteq> [] \<and> hd ip \<noteq> CHR ''0''" "0 < digits_val (ip @ fp) 0"
    "decimal (digits_val (ip @ fp) 0) ((case ex of None \<Rightarrow> 0 | Some x \<Rightarrow> x) - int (length fp)) = decimal D e"
  shows "literal s D e"
  unfolding literal_def using assms by blast

lemma literal_fmtF:
  assumes "ds \<noteq> []" "digits ds" "hd ds \<noteq> CHR ''0''" "0 < digits_val ds 0"
  shows "literal (fmtF ds dp) (digits_val ds 0) (dp - int (length ds))"
proof -
  consider "dp \<le> 0" | "0 < dp" "nat dp < length ds" | "0 < dp" "length ds \<le> nat dp" by linarith
  then show ?thesis
  proof cases
    case 1
    let ?fp = "replicate (nat (- dp)) (CHR ''0'') @ ds"
    have "fmtF ds dp = ''0'' @ frac_text ?fp @ exp_text None" using 1 assms(1) by (simp add: fmtF_def frac_text_def)
    moreover have "digits_val (''0'' @ ?fp) 0 = digits_val ds 0"
    proof -
      have "''0'' = replicate 1 (CHR ''0'')" by simp
      then show ?thesis unfolding digits_val_append by (simp only: digits_val_zeros) simp
    qed
    moreover have "0 - int (length ?fp) = dp - int (length ds)" using 1 by simp
    moreover have "digits ''0''" "digits ?fp" using assms(2) by (auto simp: is_digit_not)
    ultimately show ?thesis using assms(4)
      by (intro literalI [where ip = "''0''" and fp = ?fp and ex = None]) simp_all
  next
    case 2
    let ?ip = "take (nat dp) ds" and ?fp = "drop (nat dp) ds"
    have "fmtF ds dp = ?ip @ frac_text ?fp @ exp_text None"
      using 2 by (simp add: fmtF_def frac_text_def Let_def)
    moreover have "?ip \<noteq> []" "hd ?ip \<noteq> CHR ''0''" using 2 assms(1,3) by (simp_all add: hd_take)
    moreover have "digits ?ip" "digits ?fp" using assms(2) by (auto dest: in_set_takeD in_set_dropD)
    moreover have "0 - int (length ?fp) = dp - int (length ds)" using 2 by simp
    ultimately show ?thesis using assms(4)
      by (intro literalI [where ip = ?ip and fp = ?fp and ex = None]) simp_all
  next
    case 3
    obtain z where z: "nat dp = length ds + z" using 3(2) le_Suc_ex by blast
    let ?ip = "ds @ replicate z (CHR ''0'')"
    have "fmtF ds dp = ?ip @ frac_text [] @ exp_text None"
      using 3(1) z by (simp add: fmtF_def frac_text_def Let_def)
    moreover have "digits ?ip" using assms(2) by (auto simp: is_digit_not)
    moreover have "digits_val ?ip 0 = digits_val ds 0 * 10 ^ z" by (simp add: digits_val_append digits_val_zeros)
    moreover have "dp - int (length ds) = int z" using 3(1) z by linarith
    ultimately show ?thesis using assms(1,3,4)
      by (intro literalI [where ip = ?ip and fp = "[]" and ex = None]) simp_all
  qed
qed

lemma literal_fmtE:
  assumes "ds \<noteq> []" "digits ds" "hd ds \<noteq> CHR ''0''" "0 < digits_val ds 0"
  shows "literal (fmtE 1 ds dp) (digits_val ds 0) (dp - int (length ds))"
proof -
  obtain c cs where ds: "ds = c # cs" using assms(1) by (cases ds) auto
  have "1 - length (show_uint n) = 0" for n by (cases "show_uint n") simp_all
  then have "fmtE 1 ds dp = [c] @ frac_text cs @ exp_text (Some (dp - 1))"
    by (simp add: fmtE_def ds frac_text_def Let_def show_int_def)
  moreover have "dp - 1 - int (length cs) = dp - int (length ds)" by (simp add: ds)
  ultimately show ?thesis using assms(2-4) ds
    by (intro literalI [where ip = "[c]" and fp = cs and ex = "Some (dp - 1)"]) (simp_all add: algebra_simps)
qed

lemma literal_parsed:
  assumes "literal s D e" and "0 < D" and "number_end r"
  shows "\<exists>ip fp ex. parse_number (sign_str neg @ s @ r) = Some (JNum neg ip fp ex, r)
    \<and> num_float (JNum neg ip fp ex) = float_of_decimal neg D e"
proof -
  from assms(1) obtain ip fp ex where s: "s = ip @ frac_text fp @ exp_text ex" "digits ip" "digits fp"
    "ip = ''0'' \<or> ip \<noteq> [] \<and> hd ip \<noteq> CHR ''0''" "0 < digits_val (ip @ fp) 0"
    "decimal (digits_val (ip @ fp) 0) ((case ex of None \<Rightarrow> 0 | Some x \<Rightarrow> x) - int (length fp)) = decimal D e"
    unfolding literal_def by blast
  have "parse_number (sign_str neg @ s @ r) = Some (JNum neg ip fp ex, r)"
    using parse_number_text [OF s(2,4,3) assms(3)] by (simp add: s(1))
  moreover have "num_float (JNum neg ip fp ex) = float_of_decimal neg D e"
    using round_decimal_cong [OF s(5) assms(2) s(6)] by (simp add: float_of_decimal_def)
  ultimately show ?thesis by blast
qed

lemma json_float_parsed:
  assumes "canonical_float x" and "json_float x = Some s" and "number_end r"
  shows "\<exists>neg ip fp ex. parse_number (s @ r) = Some (JNum neg ip fp ex, r) \<and> num_float (JNum neg ip fp ex) = Some x"
proof -
  from assms(2) obtain neg m k where x: "x = Fin neg m k" by (cases x) auto
  show ?thesis
  proof (cases "m = 0")
    case True
    have k: "k = 0" using assms(1) True by (simp add: x canonical_def)
    have s: "s = sign_str neg @ ''0'' @ frac_text [] @ exp_text None"
      using assms(2) True by (simp add: x shortest_def fmtF_def frac_text_def)
    have "parse_number (s @ r) = Some (JNum neg ''0'' [] None, r)"
      unfolding s using parse_number_text [of "''0''" "[]" r neg None] assms(3) by (simp add: is_digit_not)
    moreover have "num_float (JNum neg ''0'' [] None) = Some x"
      by (simp add: x True k float_of_decimal_def round_decimal_def digit_val_def)
    ultimately show ?thesis by blast
  next
    case False
    from shortest_digits [OF _ False] assms(1) x obtain ds dp where
      sh: "shortest m k = (ds, dp)" and ds: "ds \<noteq> []" "digits ds" "hd ds \<noteq> CHR ''0''" "0 < digits_val ds 0"
      and rd: "round_decimal (digits_val ds 0) (dp - int (length ds)) = Some (m, k)"
      by (metis canonical_float.simps(1))
    from assms(2) sh obtain t where s: "s = sign_str neg @ t" and t: "t = fmtE 1 ds dp \<or> t = fmtF ds dp"
      by (auto simp: x)
    have "literal t (digits_val ds 0) (dp - int (length ds))"
      using t literal_fmtF [OF ds] literal_fmtE [OF ds] by auto
    from literal_parsed [OF this ds(4) assms(3), of neg] rd show ?thesis
      by (auto simp: s x float_of_decimal_def)
  qed
qed

lemma parse_number_start: "parse_number (c # cs) \<noteq> None \<Longrightarrow> c = CHR ''-'' \<or> is_digit c"
  by (auto simp: parse_number_def parse_int_part_def Let_def is_digit_not split: if_splits option.splits)

text \<open>A number as a value of a larger text.\<close>

lemma parse_literal_number:
  assumes "c = CHR ''-'' \<or> is_digit c"
  shows "parse_literal (c # cs) = parse_number (c # cs)"
    and "skip_ws (c # cs) = c # cs" and "c \<noteq> CHR ''{''" "c \<noteq> CHR ''[''" "c \<noteq> CHR 0x22"
proof -
  have "is_digit x \<Longrightarrow> 48 \<le> (of_char x :: int) \<and> (of_char x :: int) \<le> 57" for x
    by (simp add: is_digit_def byte_in_def)
  then have n: "c \<noteq> x" if "(of_char x :: int) < 45 \<or> 57 < (of_char x :: int)" for x
    using assms that by fastforce
  have "c \<noteq> CHR ''n''" "c \<noteq> CHR ''t''" "c \<noteq> CHR ''f''" by (intro n; simp)+
  then show "parse_literal (c # cs) = parse_number (c # cs)" by (simp add: parse_literal_def)
  have "\<not> is_ws c" unfolding is_ws_def using n [of "CHR 0x20"] n [of "CHR 0x09"] n [of "CHR 0x0A"] n [of "CHR 0x0D"] by simp
  then show "skip_ws (c # cs) = c # cs" by (simp add: skip_ws_def)
  show "c \<noteq> CHR ''{''" "c \<noteq> CHR ''[''" "c \<noteq> CHR 0x22" by (intro n; simp)+
qed

lemma json_float_value:
  assumes "canonical_float x" and "json_float x = Some s" and "number_end r"
  shows "\<exists>j. (\<forall>f. parse_value (Suc f) d (s @ r) = Some (j, r)) \<and> to_gv j = Some (VFloat x)"
proof -
  from json_float_parsed [OF assms] obtain neg ip fp ex where
    p: "parse_number (s @ r) = Some (JNum neg ip fp ex, r)" and v: "num_float (JNum neg ip fp ex) = Some x" by blast
  obtain c cs where s: "s = c # cs" using json_float_text [OF assms(2)] by (cases s) auto
  have c: "c = CHR ''-'' \<or> is_digit c" using parse_number_start [of c "cs @ r"] p by (simp add: s)
  have "parse_value (Suc f) d (s @ r) = Some (JNum neg ip fp ex, r)" for f
    using p parse_literal_number [OF c] by (simp add: s)
  with v show ?thesis by (metis map_option_eq_Some to_gv.simps(3))
qed

end
