(* ===== verification/Utf8.thy ===== *)
theory Utf8
  imports Go_Json_Facts
begin

text \<open>
  Valid UTF-8. Every string the JSON decoder makes is valid, the operations of \<open>strings\<close> and \<open>fmt\<close> that the
  program applies keep validity, and a valid string that is written as a JSON string is read back
  unchanged (an invalid byte would come back as U+FFFD).
\<close>

section \<open>Validity\<close>

function valid_utf8 :: "string \<Rightarrow> bool" where
  "valid_utf8 [] = True"
| "valid_utf8 (c # cs) =
     (if (of_char c :: int) < 0x80 then valid_utf8 cs
      else utf8_len (c # cs) \<noteq> 0 \<and> valid_utf8 (drop (utf8_len (c # cs) - 1) cs))"
  by pat_completeness auto
termination by (relation "measure length") auto

definition continuation :: "char \<Rightarrow> bool" where
  "continuation c = byte_in 0x80 0xBF c"

definition seq2 :: "char \<Rightarrow> char \<Rightarrow> bool" where
  "seq2 b0 b1 \<longleftrightarrow> byte_in 0xC2 0xDF b0 \<and> byte_in 0x80 0xBF b1"

definition seq3 :: "char \<Rightarrow> char \<Rightarrow> char \<Rightarrow> bool" where
  "seq3 b0 b1 b2 \<longleftrightarrow> byte_in 0x80 0xBF b2 \<and>
     (byte_in 0xE0 0xE0 b0 \<and> byte_in 0xA0 0xBF b1 \<or>
      byte_in 0xE1 0xEC b0 \<and> byte_in 0x80 0xBF b1 \<or>
      byte_in 0xED 0xED b0 \<and> byte_in 0x80 0x9F b1 \<or>
      byte_in 0xEE 0xEF b0 \<and> byte_in 0x80 0xBF b1)"

definition seq4 :: "char \<Rightarrow> char \<Rightarrow> char \<Rightarrow> char \<Rightarrow> bool" where
  "seq4 b0 b1 b2 b3 \<longleftrightarrow> byte_in 0x80 0xBF b2 \<and> byte_in 0x80 0xBF b3 \<and>
     (byte_in 0xF0 0xF0 b0 \<and> byte_in 0x90 0xBF b1 \<or>
      byte_in 0xF1 0xF3 b0 \<and> byte_in 0x80 0xBF b1 \<or>
      byte_in 0xF4 0xF4 b0 \<and> byte_in 0x80 0x8F b1)"

lemma utf8_len_simps:
  "utf8_len [] = 0" "utf8_len [a] = 0"
  "utf8_len [a, b] = (if seq2 a b then 2 else 0)"
  "utf8_len [a, b, c] = (if seq2 a b then 2 else if seq3 a b c then 3 else 0)"
  "utf8_len (a # b # c # d # t) =
     (if seq2 a b then 2 else if seq3 a b c then 3 else if seq4 a b c d then 4 else 0)"
  by (simp_all add: utf8_len_def flip: seq2_def seq3_def seq4_def)

lemma seq_continuation:
  "seq2 a b \<Longrightarrow> continuation b"
  "seq3 a b c \<Longrightarrow> continuation b \<and> continuation c"
  "seq4 a b c d \<Longrightarrow> continuation b \<and> continuation c \<and> continuation d"
  by (auto simp: seq2_def seq3_def seq4_def continuation_def byte_in_def)

lemma utf8_len_cases:
  assumes "utf8_len s \<noteq> 0"
  obtains (two) a b t where "s = [a, b] @ t" "utf8_len s = 2" "seq2 a b"
  | (three) a b c t where "s = [a, b, c] @ t" "utf8_len s = 3" "\<not> seq2 a b" "seq3 a b c"
  | (four) a b c d t where "s = [a, b, c, d] @ t" "utf8_len s = 4" "\<not> seq2 a b" "\<not> seq3 a b c" "seq4 a b c d"
proof (cases s)
  case (Cons a s1)
  then obtain b t where s: "s = a # b # t" using assms by (cases s1) (auto simp: utf8_len_simps)
  show ?thesis
  proof (cases t)
    case Nil
    with assms two [of a b "[]"] show ?thesis by (simp add: s utf8_len_simps split: if_splits)
  next
    case (Cons c t')
    show ?thesis
    proof (cases t')
      case Nil
      with assms Cons two [of a b "[c]"] three [of a b c "[]"] show ?thesis
        by (simp add: s utf8_len_simps split: if_splits)
    next
      case c: (Cons d t'')
      with assms Cons two [of a b t] three [of a b c t'] four [of a b c d t''] show ?thesis
        by (simp add: s utf8_len_simps split: if_splits)
    qed
  qed
qed (use assms in \<open>simp add: utf8_len_simps\<close>)

lemma utf8_len_seq:
  "seq2 a b \<Longrightarrow> utf8_len ([a, b] @ t) = 2"
  "\<not> seq2 a b \<Longrightarrow> seq3 a b c \<Longrightarrow> utf8_len ([a, b, c] @ t) = 3"
  "\<not> seq2 a b \<Longrightarrow> \<not> seq3 a b c \<Longrightarrow> seq4 a b c d \<Longrightarrow> utf8_len ([a, b, c, d] @ t) = 4"
proof -
  assume "seq2 a b"
  then show "utf8_len ([a, b] @ t) = 2"
    by (cases t; cases "tl t") (auto simp: utf8_len_simps neq_Nil_conv)
next
  assume "\<not> seq2 a b" "seq3 a b c"
  then show "utf8_len ([a, b, c] @ t) = 3" by (cases t) (auto simp: utf8_len_simps)
next
  assume "\<not> seq2 a b" "\<not> seq3 a b c" "seq4 a b c d"
  then show "utf8_len ([a, b, c, d] @ t) = 4" by (simp add: utf8_len_simps)
qed

lemma utf8_len_take_append:
  assumes "utf8_len s \<noteq> 0"
  shows "utf8_len (take (utf8_len s) s @ t) = utf8_len s"
  using assms by (cases rule: utf8_len_cases) (use utf8_len_seq [where t = t] in auto)

lemma utf8_len_le: "utf8_len s \<le> length s"
  using utf8_len_cases [of s "utf8_len s \<le> length s"] by fastforce

lemma utf8_len_append: "utf8_len s \<noteq> 0 \<Longrightarrow> utf8_len (s @ t) = utf8_len s"
  using utf8_len_take_append [of s "drop (utf8_len s) s @ t"] by (simp flip: append_assoc)

text \<open>The bytes of a sequence after its first are continuation bytes, the first is not.\<close>

lemma utf8_len_tail: "0 < i \<Longrightarrow> i < utf8_len s \<Longrightarrow> continuation (s ! i)"
proof -
  assume i: "0 < i" "i < utf8_len s"
  then have "utf8_len s \<noteq> 0" by simp
  then show ?thesis
    by (cases rule: utf8_len_cases) (use i seq_continuation in \<open>auto simp: less_Suc_eq numeral_eq_Suc nth_Cons'\<close>)
qed

lemma valid_utf8_ascii: "\<forall>c \<in> set s. (of_char c :: int) < 0x80 \<Longrightarrow> valid_utf8 s"
  by (induction s) auto

lemma valid_utf8_seq: "utf8_len (c # s) = length (c # s) \<Longrightarrow> \<not> (of_char c :: int) < 0x80 \<Longrightarrow> valid_utf8 (c # s)"
  by simp

lemma valid_utf8_append: "valid_utf8 a \<Longrightarrow> valid_utf8 (a @ b) = valid_utf8 b"
proof (induction a rule: valid_utf8.induct)
  case (2 c cs)
  show ?case
  proof (cases "(of_char c :: int) < 0x80")
    case False
    with 2(3) have n: "utf8_len (c # cs) \<noteq> 0" by simp
    then have "utf8_len (c # cs @ b) = utf8_len (c # cs)" using utf8_len_append [of "c # cs" b] by simp
    moreover have "utf8_len (c # cs) - 1 \<le> length cs" using utf8_len_le [of "c # cs"] by simp
    ultimately show ?thesis using False n 2 by simp
  qed (use 2 in simp)
qed simp

lemma valid_utf8_split:
  "valid_utf8 (a @ c # b) \<Longrightarrow> \<not> continuation c \<Longrightarrow> valid_utf8 a"
proof (induction "a @ c # b" arbitrary: a rule: valid_utf8.induct)
  case (2 x xs)
  show ?case
  proof (cases a)
    case (Cons y a')
    with 2(3) have a: "x = y" "xs = a' @ c # b" by simp_all
    show ?thesis
    proof (cases "(of_char x :: int) < 0x80")
      case True
      with 2 a Cons show ?thesis by simp
    next
      case False
      let ?n = "utf8_len (x # xs)"
      have n: "?n \<noteq> 0" and rest: "valid_utf8 (drop (?n - 1) xs)" using 2(4) False unfolding 2(3) [symmetric] by simp_all
      have le: "?n \<le> length a"
      proof (rule ccontr)
        assume "\<not> ?n \<le> length a"
        then have "continuation ((x # xs) ! length a)" using Cons by (intro utf8_len_tail) simp_all
        with a Cons 2(5) show False by simp
      qed
      then have "drop (?n - 1) xs = drop (?n - 1) a' @ c # b" using a Cons by simp
      with 2(2) [OF False] rest 2(5) have "valid_utf8 (drop (?n - 1) a')" by simp
      moreover have "utf8_len (y # a') = ?n"
      proof -
        have "x # xs = (y # a') @ c # b" using a by simp
        then have "take ?n (x # xs) = take ?n (y # a')" using le Cons by (metis take_append append_Nil2 diff_is_0_eq' take0)
        then have "utf8_len (y # a') = utf8_len (take ?n (x # xs) @ drop ?n (y # a'))" by simp
        with utf8_len_take_append [OF n] show ?thesis by simp
      qed
      ultimately show ?thesis using Cons False a n by simp
    qed
  qed simp
qed simp

lemma not_continuation: "(of_char c :: int) < 0x80 \<or> 0xBF < (of_char c :: int) \<Longrightarrow> \<not> continuation c"
  by (auto simp: continuation_def byte_in_def)

section \<open>Runes\<close>

lemma replacement_valid [simp]: "valid_utf8 replacement"
  by (simp add: replacement_def utf8_len_simps seq2_def seq3_def byte_in_def)

lemma of_char_char_of: "0 \<le> n \<Longrightarrow> n < 256 \<Longrightarrow> (of_char (char_of n :: char) :: int) = n"
  by simp

lemma lead_high: "0xF0 \<le> (of_char a :: int) \<Longrightarrow> \<not> seq2 a b \<and> \<not> seq3 a b c"
  by (auto simp: seq2_def seq3_def byte_in_def)

lemma encode_rune_valid:
  assumes "0 \<le> r" and "r < 0x110000" and "\<not> (0xD800 \<le> r \<and> r < 0xE000)"
  shows "valid_utf8 (encode_rune r)"
proof -
  consider (one) "r < 0x80" | (two) "0x80 \<le> r" "r < 0x800" | (three) "0x800 \<le> r" "r < 0x10000" | (four) "0x10000 \<le> r"
    by linarith
  then show ?thesis
  proof cases
    case one
    with assms(1) show ?thesis by (simp add: encode_rune_def)
  next
    case two
    then have "2 \<le> r div 64" "r div 64 \<le> 31" "r mod 64 \<le> 63" by presburger+
    then have "seq2 (char_of (0xC0 + r div 64)) (char_of (0x80 + r mod 64))"
      by (simp add: seq2_def byte_in_def)
    with two show ?thesis by (simp add: encode_rune_def utf8_len_simps)
  next
    case three
    have "\<not> seq2 (char_of (0xE0 + r div 4096)) (char_of (0x80 + r div 64 mod 64))"
      using three by (simp add: seq2_def byte_in_def)
    moreover have "seq3 (char_of (0xE0 + r div 4096)) (char_of (0x80 + r div 64 mod 64)) (char_of (0x80 + r mod 64))"
    proof -
      define q where "q = r div 64"
      have q: "r div 4096 = q div 64" "32 \<le> q" "q < 1024" "q < 864 \<or> 896 \<le> q"
        using three assms(3) by (auto simp: q_def zdiv_zmult2_eq [of 64 r 64, simplified])
      have "q div 64 = 0 \<Longrightarrow> 32 \<le> q mod 64" "q div 64 = 13 \<Longrightarrow> q mod 64 < 32" "0 \<le> q div 64" "q div 64 \<le> 15"
        using q(2-4) by presburger+
      then show ?thesis unfolding q(1) q_def [symmetric] by (auto simp: seq3_def byte_in_def)
    qed
    ultimately show ?thesis using three by (simp add: encode_rune_def utf8_len_simps)
  next
    case four
    let ?a = "char_of (0xF0 + r div 262144) :: char" and ?b = "char_of (0x80 + r div 4096 mod 64) :: char"
      and ?c = "char_of (0x80 + r div 64 mod 64) :: char" and ?d = "char_of (0x80 + r mod 64) :: char"
    have a: "(of_char ?a :: int) = 0xF0 + r div 262144" using four assms by simp
    have "\<not> seq2 ?a ?b" "\<not> seq3 ?a ?b ?c" using lead_high [of ?a ?b ?c] four a by (simp_all add: pos_imp_zdiv_nonneg_iff)
    moreover have "seq4 ?a ?b ?c ?d"
    proof -
      define q where "q = r div 4096"
      have q: "r div 262144 = q div 64" "16 \<le> q" "q < 272"
        using four assms(2) by (auto simp: q_def zdiv_zmult2_eq [of 64 r 4096, simplified])
      have "q div 64 = 0 \<Longrightarrow> 16 \<le> q mod 64" "q div 64 = 4 \<Longrightarrow> q mod 64 < 16" "0 \<le> q div 64" "q div 64 \<le> 4"
        using q(2,3) by presburger+
      then show ?thesis unfolding q(1) q_def [symmetric]
        by (cases "q div 64 = 4") (auto simp: seq4_def byte_in_def)
    qed
    ultimately show ?thesis using four a by (simp add: encode_rune_def utf8_len_simps)
  qed
qed

lemma u_escape_valid: "0 \<le> r \<Longrightarrow> r < 0x10000 \<Longrightarrow> valid_utf8 (fst (u_escape r s))"
  by (auto simp: u_escape_def intro!: encode_rune_valid split: list.splits option.splits)

lemma hex_val_range: "hex_val c = Some n \<Longrightarrow> 0 \<le> n \<and> n < 16"
  by (auto simp: hex_val_def Let_def split: if_splits)

lemma u4_range: "u4 s = Some r \<Longrightarrow> 0 \<le> r \<and> r < 0x10000"
  by (auto simp: u4_def split: list.splits option.splits dest!: hex_val_range)

lemma simple_escape_ascii: "simple_escape e = Some x \<Longrightarrow> (of_char x :: int) < 0x80"
  by (auto simp: simple_escape_def split: if_splits)

section \<open>String literals\<close>

lemma string_step_valid: "string_step c cs = Some (x, r) \<Longrightarrow> valid_utf8 x"
proof -
  assume step: "string_step c cs = Some (x, r)"
  have seq: "valid_utf8 (take (utf8_len (c # cs)) (c # cs))" if nz: "utf8_len (c # cs) \<noteq> 0" and hi: "\<not> (of_char c :: int) < 0x80"
  proof -
    obtain n where n: "utf8_len (c # cs) = Suc n" using not0_implies_Suc [OF nz] by blast
    have "utf8_len (c # take n cs) = Suc n" using utf8_len_take_append [OF nz, of "[]"] n by simp
    with hi n utf8_len_le [of "c # cs"] show ?thesis by simp
  qed
  show ?thesis
  proof (cases "c = CHR 0x5C")
    case True
    with step obtain e es where cs: "cs = e # es" by (auto simp: string_step_def split: list.splits)
    show ?thesis
    proof (cases "simple_escape e")
      case None
      with step True cs obtain n where "u4 es = Some n" "x = fst (u_escape n (drop 4 es))"
        by (auto simp: string_step_def split: if_splits)
      with u4_range [of es n] u_escape_valid show ?thesis by auto
    next
      case (Some y)
      with step True cs simple_escape_ascii [OF Some] show ?thesis by (auto simp: string_step_def)
    qed
  next
    case False
    with step seq show ?thesis by (auto simp: string_step_def split: if_splits)
  qed
qed

lemma parse_string_valid: "parse_string s = Some (x, r) \<Longrightarrow> valid_utf8 x"
proof (induction s arbitrary: x r rule: parse_string.induct)
  case (2 c cs)
  then show ?case
    using string_step_valid by (auto simp: valid_utf8_append split: if_splits option.splits)
qed simp

lemma parse_string_step:
  "c \<noteq> CHR 0x22 \<Longrightarrow> string_step c t = Some (x, t') \<Longrightarrow>
     parse_string (c # t) = map_option (\<lambda>(y, r). (x @ y, r)) (parse_string t')"
  by simp

lemma hex_val_hex_char: "0 \<le> d \<Longrightarrow> d < 16 \<Longrightarrow> hex_val (hex_char d) = Some d"
  by (auto simp: hex_val_def hex_char_def)

lemma u00_step:
  assumes "(of_char c :: int) < 0x80"
  shows "string_step (CHR 0x5C) (tl (u00 c) @ t) = Some ([c], t)"
proof -
  define n where "n = (of_char c :: int)"
  have n: "0 \<le> n" "n < 0x80" using assms of_char_range [of c] by (simp_all add: n_def)
  have "u4 ([CHR ''0'', CHR ''0'', hex_char (n div 16), hex_char (n mod 16)] @ t) = Some n"
  proof -
    have "hex_val (CHR ''0'') = Some 0" by (simp add: hex_val_def)
    moreover have "hex_val (hex_char (n div 16)) = Some (n div 16)" "hex_val (hex_char (n mod 16)) = Some (n mod 16)"
      using n by (simp_all add: hex_val_hex_char)
    ultimately show ?thesis by (simp add: u4_def)
  qed
  moreover have "encode_rune n = [c]" using n(2) by (simp add: encode_rune_def n_def)
  ultimately show ?thesis using n
    by (simp add: string_step_def u00_def simple_escape_def u_escape_def flip: n_def)
qed

lemma parse_ascii_escape:
  assumes "(of_char c :: int) < 0x80"
  shows "parse_string (ascii_escape c @ t) = map_option (\<lambda>(y, r). (c # y, r)) (parse_string t)"
proof -
  have short: "parse_string (CHR 0x5C # e # t) = map_option (\<lambda>(y, r). (c # y, r)) (parse_string t)"
    if "simple_escape e = Some c" for e
  proof -
    have "string_step (CHR 0x5C) (e # t) = Some ([c], t)" using that by (simp add: string_step_def)
    from parse_string_step [OF _ this] show ?thesis by simp
  qed
  have u: "parse_string (u00 c @ t) = map_option (\<lambda>(y, r). (c # y, r)) (parse_string t)"
    using parse_string_step [OF _ u00_step [OF assms]] by (simp add: u00_def)
  have plain: "parse_string (c # t) = map_option (\<lambda>(y, r). (c # y, r)) (parse_string t)"
    if "\<not> (of_char c :: int) < 0x20" "c \<noteq> CHR 0x22" "c \<noteq> CHR 0x5C"
  proof -
    have "string_step c t = Some ([c], t)" using that assms by (simp add: string_step_def)
    from parse_string_step [OF that(2) this] show ?thesis by simp
  qed
  show ?thesis unfolding ascii_escape_def
    using short u plain by (auto simp: simple_escape_def simp del: parse_string.simps)
qed

lemma parse_rune:
  assumes "\<not> (of_char c :: int) < 0x80" and "utf8_len (c # cs) = Suc n"
  shows "parse_string (c # take n cs @ t) = map_option (\<lambda>(y, r). (c # take n cs @ y, r)) (parse_string t)"
proof -
  have "utf8_len (c # take n cs @ t) = Suc n"
    using utf8_len_take_append [of "c # cs" t] assms(2) by simp
  moreover have "length (take n cs) = n" using utf8_len_le [of "c # cs"] assms(2) by simp
  moreover have "c \<noteq> CHR 0x22" "c \<noteq> CHR 0x5C" using assms(1) by auto
  ultimately show ?thesis using assms(1)
    by (subst parse_string_step [where x = "c # take n cs" and t' = t]) (simp_all add: string_step_def)
qed

lemma parse_separator:
  "parse_string (CHR 0x5C # ''u2028'' @ t) = map_option (\<lambda>(y, r). ([CHR 0xE2, CHR 0x80, CHR 0xA8] @ y, r)) (parse_string t)"
  "parse_string (CHR 0x5C # ''u2029'' @ t) = map_option (\<lambda>(y, r). ([CHR 0xE2, CHR 0x80, CHR 0xA9] @ y, r)) (parse_string t)"
proof -
  have runes: "encode_rune 0x2028 = [CHR 0xE2, CHR 0x80, CHR 0xA8]" "encode_rune 0x2029 = [CHR 0xE2, CHR 0x80, CHR 0xA9]"
    by code_simp+
  have "string_step (CHR 0x5C) (''u2028'' @ t) = Some ([CHR 0xE2, CHR 0x80, CHR 0xA8], t)"
    using runes by (simp add: string_step_def simple_escape_def u4_def hex_val_def u_escape_def)
  from parse_string_step [OF _ this] show "parse_string (CHR 0x5C # ''u2028'' @ t)
    = map_option (\<lambda>(y, r). ([CHR 0xE2, CHR 0x80, CHR 0xA8] @ y, r)) (parse_string t)" by simp
  have "string_step (CHR 0x5C) (''u2029'' @ t) = Some ([CHR 0xE2, CHR 0x80, CHR 0xA9], t)"
    using runes by (simp add: string_step_def simple_escape_def u4_def hex_val_def u_escape_def)
  from parse_string_step [OF _ this] show "parse_string (CHR 0x5C # ''u2029'' @ t)
    = map_option (\<lambda>(y, r). ([CHR 0xE2, CHR 0x80, CHR 0xA9] @ y, r)) (parse_string t)" by simp
qed

lemma parse_json_chars: "valid_utf8 s \<Longrightarrow> parse_string (json_chars s @ CHR 0x22 # r) = Some (s, r)"
proof (induction s rule: valid_utf8.induct)
  case (2 c cs)
  show ?case
  proof (cases "(of_char c :: int) < 0x80")
    case True
    with 2 show ?thesis by (simp add: parse_ascii_escape)
  next
    case False
    with 2(3) have "utf8_len (c # cs) \<noteq> 0" by simp
    then obtain n where n: "utf8_len (c # cs) = Suc n" using not0_implies_Suc by blast
    let ?rest = "json_chars (drop n cs) @ CHR 0x22 # r"
    have IH: "parse_string ?rest = Some (drop n cs, r)" using 2 False n by simp
    consider (a) "c # take n cs = [CHR 0xE2, CHR 0x80, CHR 0xA8]" | (b) "c # take n cs = [CHR 0xE2, CHR 0x80, CHR 0xA9]"
      | (plain) "c # take n cs \<noteq> [CHR 0xE2, CHR 0x80, CHR 0xA8]" "c # take n cs \<noteq> [CHR 0xE2, CHR 0x80, CHR 0xA9]" by blast
    then show ?thesis
    proof cases
      case a
      have "json_chars (c # cs) @ CHR 0x22 # r = CHR 0x5C # ''u2028'' @ ?rest" using False n a by (simp add: Let_def)
      with parse_separator(1) [of ?rest] IH have "parse_string (json_chars (c # cs) @ CHR 0x22 # r)
          = Some ((c # take n cs) @ drop n cs, r)" unfolding a by (simp only: option.map prod.case)
      then show ?thesis by simp
    next
      case b
      have "json_chars (c # cs) @ CHR 0x22 # r = CHR 0x5C # ''u2029'' @ ?rest" using False n b by (simp add: Let_def)
      with parse_separator(2) [of ?rest] IH have "parse_string (json_chars (c # cs) @ CHR 0x22 # r)
          = Some ((c # take n cs) @ drop n cs, r)" unfolding b by (simp only: option.map prod.case)
      then show ?thesis by simp
    next
      case plain
      then have "json_chars (c # cs) @ CHR 0x22 # r = c # take n cs @ ?rest" using False n by (simp add: Let_def)
      with parse_rune [OF False n, of ?rest] IH show ?thesis by (simp only: option.map prod.case append_take_drop_id)
    qed
  qed
qed simp

section \<open>Operations that keep validity\<close>

lemma valid_utf8_joinStr: "valid_utf8 sep \<Longrightarrow> \<forall>x \<in> set xs. valid_utf8 x \<Longrightarrow> valid_utf8 (joinStr sep xs)"
  by (induction sep xs rule: joinStr.induct) (simp_all add: valid_utf8_append)

lemma show_uint_valid: "0 \<le> n \<Longrightarrow> valid_utf8 (show_uint n)"
proof (intro valid_utf8_ascii ballI)
  fix c assume "0 \<le> n" "c \<in> set (show_uint n)"
  then obtain d where "0 \<le> d" "d < 10" "c = digit_char d" using show_uint_digits by blast
  then show "(of_char c :: int) < 0x80" by (simp add: of_char_digit_char)
qed

lemma show_int_valid [simp]: "valid_utf8 (show_int n)"
  using show_uint_valid [of n] show_uint_valid [of "- n"] by (simp add: show_int_def)

lemma wide_spaces_seq: "e \<in> set wide_spaces \<Longrightarrow> valid_utf8 e \<and> e \<noteq> [] \<and> \<not> continuation (hd e)"
  by (auto simp: wide_spaces_def utf8_len_simps seq2_def seq3_def byte_in_def continuation_def)

lemma wide_len_cases: "wide_len es s = 0 \<or> (\<exists>e \<in> set es. \<exists>r. s = e @ r \<and> wide_len es s = length e)"
  by (induction es) (auto simp: HasPrefix_iff)

lemma space_len_cases:
  assumes "space_len es s \<noteq> 0"
  shows "\<exists>e r. s = e @ r \<and> space_len es s = length e \<and> (e \<in> set es \<or> (\<exists>c. e = [c] \<and> ascii_space c))"
proof -
  obtain c t where s: "s = c # t" using assms by (cases s) (auto simp: space_len_def)
  show ?thesis
  proof (cases "ascii_space c")
    case True
    with s show ?thesis by (intro exI [of _ "[c]"] exI [of _ t]) (simp add: space_len_def)
  next
    case False
    then have "space_len es s = wide_len es s" by (simp add: space_len_def s)
    with wide_len_cases [of es s] assms show ?thesis by metis
  qed
qed

lemma ascii_space_char: "ascii_space c \<Longrightarrow> (of_char c :: int) < 0x80"
  by (auto simp: ascii_space_def)

lemma trim_front_valid: "es = wide_spaces \<Longrightarrow> valid_utf8 s \<Longrightarrow> valid_utf8 (trim_front es s)"
proof (induction es s rule: trim_front.induct)
  case (1 es s)
  show ?case
  proof (cases "s = [] \<or> space_len es s = 0")
    case True
    with 1(3) show ?thesis by (simp add: trim_front.simps [of es s])
  next
    case False
    then obtain e r where e: "s = e @ r" "space_len es s = length e" "e \<in> set es \<or> (\<exists>c. e = [c] \<and> ascii_space c)"
      using space_len_cases [of es s] by blast
    have "valid_utf8 e" using e(3) wide_spaces_seq ascii_space_char 1(2) by auto
    with e(1) 1(3) have "valid_utf8 r" by (simp add: valid_utf8_append)
    with 1(1) [OF False] 1(2) e show ?thesis unfolding trim_front.simps [of es s] using False by simp
  qed
qed

lemma trim_back_valid: "es = map rev wide_spaces \<Longrightarrow> valid_utf8 (rev s) \<Longrightarrow> valid_utf8 (rev (trim_front es s))"
proof (induction es s rule: trim_front.induct)
  case (1 es s)
  show ?case
  proof (cases "s = [] \<or> space_len es s = 0")
    case True
    with 1(3) show ?thesis by (simp add: trim_front.simps [of es s])
  next
    case False
    then obtain e r where e: "s = e @ r" "space_len es s = length e" "e \<in> set es \<or> (\<exists>c. e = [c] \<and> ascii_space c)"
      using space_len_cases [of es s] by blast
    have "rev e \<noteq> [] \<and> \<not> continuation (hd (rev e))"
      using e(3) wide_spaces_seq ascii_space_char not_continuation 1(2) by auto
    then obtain c b where "rev e = c # b" "\<not> continuation c" by (cases "rev e") auto
    with e(1) 1(3) have "valid_utf8 (rev r)" using valid_utf8_split [of "rev r" c b] by simp
    with 1(1) [OF False] 1(2) e show ?thesis unfolding trim_front.simps [of es s] using False by simp
  qed
qed

lemma TrimSpace_valid: "valid_utf8 s \<Longrightarrow> valid_utf8 (TrimSpace s)"
  unfolding TrimSpace_def by (intro trim_back_valid trim_front_valid) (simp_all add: trim_front_valid)

end
