(* ===== verification/Json_Roundtrip.thy ===== *)
theory Json_Roundtrip
  imports Json_Numbers Utf8
begin

text \<open>
  \<open>json.Unmarshal\<close> after \<open>json.Marshal\<close>. A value is \<open>clean\<close> when its floats are canonical, its strings and keys valid
  UTF-8 and its maps sorted; \<open>nests d\<close> bounds its nesting by \<open>d\<close>. The text of a clean value that nests no
  deeper than the scanner allows decodes to the value, and whatever the decoder returns is clean.
\<close>

section \<open>Clean values\<close>

fun clean :: "gv \<Rightarrow> bool" where
  "clean (VInt i) = False"
| "clean (VFloat x) = canonical_float x"
| "clean (VString s) = valid_utf8 s"
| "clean (VSlice vs) = (\<forall>v \<in> set vs. clean v)"
| "clean (VMap m) = (keys_sorted m \<and> (\<forall>(k, v) \<in> set m. valid_utf8 k \<and> clean v))"
| "clean _ = True"

fun nests :: "nat \<Rightarrow> gv \<Rightarrow> bool" where
  "nests d (VSlice vs) = (0 < d \<and> (\<forall>v \<in> set vs. nests (d - 1) v))"
| "nests d (VMap m) = (0 < d \<and> (\<forall>(k, v) \<in> set m. nests (d - 1) v))"
| "nests d _ = True"

lemma nests_mono: "nests d v \<Longrightarrow> d \<le> e \<Longrightarrow> nests e v"
proof (induction d v arbitrary: e rule: nests.induct)
  case (1 d vs)
  then have "0 < e" "\<forall>v \<in> set vs. nests (e - 1) v" by (simp_all add: diff_le_mono)
  then show ?case by simp
next
  case (2 d m)
  then have "0 < e" "\<forall>(k, v) \<in> set m. nests (e - 1) v" by (fastforce simp: diff_le_mono)+
  then show ?case by simp
qed simp_all

lemma clean_wf: "clean v \<Longrightarrow> wf_gv v"
  by (induction v rule: clean.induct) (auto simp: wf_gomap_def list_all_iff canonical_is_finite)

definition clean_map :: "gomap \<Rightarrow> bool" where
  "clean_map m = clean (VMap m)"

lemma clean_map_simps [simp]:
  "clean_map []" "clean_map m \<Longrightarrow> keys_sorted m"
  by (simp_all add: clean_map_def)

lemma clean_map_put: "clean_map m \<Longrightarrow> valid_utf8 k \<Longrightarrow> clean v \<Longrightarrow> clean_map (map_put k v m)"
  using set_map_put [of k v m] by (auto simp: clean_map_def)

lemma clean_map_del: "clean_map m \<Longrightarrow> clean_map (map_del k m)"
  using set_map_del [of k m] by (auto simp: clean_map_def)

lemma clean_map_get: "clean_map m \<Longrightarrow> map_get m k = Some v \<Longrightarrow> clean v"
  by (auto simp: clean_map_def dest!: map_of_SomeD)

section \<open>JSON texts\<close>

text \<open>
  The texts of a value, with any white space around the elements of a slice and the members of a map:
  what \<open>json.Marshal\<close> and \<open>json.MarshalIndent\<close> write are two of them.
\<close>

definition blank :: "string \<Rightarrow> bool" where
  "blank w \<longleftrightarrow> list_all is_ws w"

lemma blank_simps [simp]: "blank []" "blank (a # w) \<longleftrightarrow> is_ws a \<and> blank w"
  by (simp_all add: blank_def)

inductive text_of :: "gv \<Rightarrow> string \<Rightarrow> bool" where
  null: "text_of VNil ''null''"
| true_text: "text_of (VBool True) ''true''"
| false_text: "text_of (VBool False) ''false''"
| float: "canonical_float x \<Longrightarrow> json_float x = Some s \<Longrightarrow> text_of (VFloat x) s"
| string: "valid_utf8 t \<Longrightarrow> text_of (VString t) (json_string t)"
| empty_slice: "text_of (VSlice []) ''[]''"
| slice: "list_all2 text_of vs xs \<Longrightarrow> vs \<noteq> [] \<Longrightarrow> blank w \<Longrightarrow> blank w' \<Longrightarrow>
    text_of (VSlice vs) (CHR ''['' # w @ joinStr (CHR '','' # w) xs @ w' @ '']'')"
| empty_map: "text_of (VMap []) ''{}''"
| map: "list_all2 (\<lambda>p x. valid_utf8 (fst p) \<and> (\<exists>s. text_of (snd p) s \<and> x = json_string (fst p) @ CHR '':'' # b @ s)) m xs \<Longrightarrow>
    keys_sorted m \<Longrightarrow> m \<noteq> [] \<Longrightarrow> blank w \<Longrightarrow> blank w' \<Longrightarrow> blank b \<Longrightarrow>
    text_of (VMap m) (CHR ''{'' # w @ joinStr (CHR '','' # w) xs @ w' @ ''}'')"

lemma text_of_slice:
  assumes "list_all2 text_of vs xs" and "blank w" and "blank w'" and "vs = [] \<Longrightarrow> w @ w' = []"
  shows "text_of (VSlice vs) (CHR ''['' # w @ joinStr (CHR '','' # w) xs @ w' @ '']'')"
  using assms text_of.slice [OF assms(1) _ assms(2,3)] text_of.empty_slice by (cases "vs = []") auto

lemma text_of_map:
  assumes "list_all2 (\<lambda>p x. valid_utf8 (fst p) \<and> (\<exists>s. text_of (snd p) s \<and> x = json_string (fst p) @ CHR '':'' # b @ s)) m xs"
    and "keys_sorted m" and "blank w" and "blank w'" and "blank b" and "m = [] \<Longrightarrow> w @ w' = []"
  shows "text_of (VMap m) (CHR ''{'' # w @ joinStr (CHR '','' # w) xs @ w' @ ''}'')"
  using assms text_of.map [OF assms(1,2) _ assms(3-5)] text_of.empty_map by (cases "m = []") auto

text \<open>The encoder writes a text of the value.\<close>

lemma marshal_text_of:
  shows "marshal v = Some s \<Longrightarrow> clean v \<Longrightarrow> text_of v s"
    and "marshal_items vs = Some xs \<Longrightarrow> \<forall>v \<in> set vs. clean v \<Longrightarrow> list_all2 text_of vs xs"
    and "marshal_fields m = Some xs \<Longrightarrow> \<forall>(k, v) \<in> set m. valid_utf8 k \<and> clean v \<Longrightarrow>
      list_all2 (\<lambda>p x. valid_utf8 (fst p) \<and> (\<exists>s. text_of (snd p) s \<and> x = json_string (fst p) @ CHR '':'' # [] @ s)) m xs"
proof (induction v and vs and m arbitrary: s and xs and xs rule: marshal_marshal_items_marshal_fields.induct)
  case (6 vs)
  then obtain xs where "list_all2 text_of vs xs" "s = CHR ''['' # joinStr '','' xs @ '']''" by auto
  with text_of_slice [of vs xs "[]" "[]"] show ?case by simp
next
  case (7 m)
  then obtain xs where xs: "marshal_fields m = Some xs" "s = CHR ''{'' # joinStr '','' xs @ ''}''" by auto
  with 7(1) [OF xs(1)] 7(3) text_of_map [of "[]" m xs "[]" "[]"] show ?case by auto
qed (auto intro: text_of.intros split: option.splits)

section \<open>Reading a text\<close>

definition delim :: "string \<Rightarrow> bool" where
  "delim r \<longleftrightarrow> r = [] \<or> is_ws (hd r) \<or> hd r \<in> {CHR '','', CHR '']'', CHR ''}''}"

lemma delim_number_end: "delim r \<Longrightarrow> number_end r"
  by (auto simp: delim_def number_end_def is_digit_not is_ws_def) (simp_all add: is_digit_def byte_in_def)

lemma delim_intros [simp]:
  "delim []" "blank w \<Longrightarrow> delim (w @ CHR '','' # r)" "blank w \<Longrightarrow> delim (w @ CHR '']'' # r)" "blank w \<Longrightarrow> delim (w @ CHR ''}'' # r)"
  by (cases w; simp add: delim_def)+

lemma is_ws_punctuation [simp]:
  "\<not> is_ws (CHR '','')" "\<not> is_ws (CHR '']'')" "\<not> is_ws (CHR ''}'')" "\<not> is_ws (CHR '':'')" "\<not> is_ws (CHR 0x22)"
  "\<not> is_ws (CHR ''{'')" "\<not> is_ws (CHR ''['')" "\<not> is_ws (CHR ''n'')" "\<not> is_ws (CHR ''t'')" "\<not> is_ws (CHR ''f'')"
  by (simp_all add: is_ws_def)

lemma skip_ws_simps [simp]:
  "\<not> is_ws c \<Longrightarrow> skip_ws (c # cs) = c # cs" "blank w \<Longrightarrow> skip_ws (w @ s) = skip_ws s" "skip_ws (skip_ws s) = skip_ws s"
  by (simp_all add: skip_ws_def blank_def list_all_iff dropWhile_append2)

lemma parse_skip_ws:
  "skip_ws s = skip_ws t \<Longrightarrow> parse_value f d s = parse_value f d t"
  "skip_ws s = skip_ws t \<Longrightarrow> parse_elems f d s = parse_elems f d t"
  "skip_ws s = skip_ws t \<Longrightarrow> parse_members f d s = parse_members f d t"
proof -
  show parse: "skip_ws s = skip_ws t \<Longrightarrow> parse_value f d s = parse_value f d t" for f by (cases f) simp_all
  show "skip_ws s = skip_ws t \<Longrightarrow> parse_elems f d s = parse_elems f d t" using parse by (cases f) simp_all
  show "skip_ws s = skip_ws t \<Longrightarrow> parse_members f d s = parse_members f d t" by (cases f) simp_all
qed

lemma parse_blank [simp]:
  "blank w \<Longrightarrow> parse_value f d (w @ s) = parse_value f d s"
  "blank w \<Longrightarrow> parse_elems f d (w @ s) = parse_elems f d s"
  "blank w \<Longrightarrow> parse_members f d (w @ s) = parse_members f d s"
  by (auto intro: parse_skip_ws)

text \<open>\<open>reads p v\<close>: with enough fuel the parser \<open>p\<close> returns \<open>v\<close>.\<close>

definition reads :: "(nat \<Rightarrow> 'a option) \<Rightarrow> 'a \<Rightarrow> bool" where
  "reads p v \<longleftrightarrow> (\<exists>N. \<forall>f \<ge> N. p f = Some v)"

lemma readsI: "(\<And>f. p (Suc f) = Some v) \<Longrightarrow> reads p v"
  unfolding reads_def by (metis Suc_le_D One_nat_def)

lemma reads_Suc:
  assumes "reads p v" and "\<And>f. p (Suc f) = Some v \<Longrightarrow> q (Suc (Suc f)) = Some w"
  shows "reads q w"
proof -
  from assms(1) obtain N where "\<And>f. N \<le> f \<Longrightarrow> p f = Some v" unfolding reads_def by blast
  then have "\<forall>f \<ge> Suc (Suc N). q f = Some w" using assms(2) by (metis Suc_le_D Suc_le_mono le_SucI)
  then show ?thesis unfolding reads_def ..
qed

lemma reads_Suc2:
  assumes "reads p v" and "reads p' v'" and "\<And>f. p f = Some v \<Longrightarrow> p' f = Some v' \<Longrightarrow> q (Suc f) = Some w"
  shows "reads q w"
proof -
  from assms(1,2) obtain N N' where "\<And>f. N \<le> f \<Longrightarrow> p f = Some v" "\<And>f. N' \<le> f \<Longrightarrow> p' f = Some v'"
    unfolding reads_def by blast
  then have "\<forall>f \<ge> Suc (max N N'). q f = Some w"
    using assms(3) by (metis Suc_le_D Suc_le_mono max.bounded_iff)
  then show ?thesis unfolding reads_def ..
qed

lemma parse_value_start:
  assumes "parse_value f d u = Some (v, r)"
  shows "\<exists>b bs. skip_ws u = b # bs \<and> b \<noteq> CHR '']''"
proof (cases f)
  case (Suc n)
  then obtain b bs where u: "skip_ws u = b # bs" using assms by (cases "skip_ws u") auto
  have "parse_number (CHR '']'' # bs) = None" by (rule ccontr) (drule parse_number_start, simp add: is_digit_not)
  then have "parse_literal (CHR '']'' # bs) = None" by (simp add: parse_literal_def)
  with assms Suc u show ?thesis by auto
qed (use assms in simp)

text \<open>One step of the parser per constructor: brackets, elements, members.\<close>

lemma reads_array:
  assumes "reads (\<lambda>f. parse_elems f (Suc d) u) (js, r)" and "d < maxNestingDepth"
  shows "reads (\<lambda>f. parse_value f d (CHR ''['' # u)) (JArr js, r)"
proof (rule reads_Suc [OF assms(1)])
  fix f assume elems: "parse_elems (Suc f) (Suc d) u = Some (js, r)"
  then obtain v r' where "parse_value f (Suc d) u = Some (v, r')" by (auto split: option.splits)
  from parse_value_start [OF this] obtain b bs where b: "skip_ws u = b # bs" "b \<noteq> CHR '']''" by blast
  with elems have "parse_elems (Suc f) (Suc d) (b # bs) = Some (js, r)"
    using parse_skip_ws(2) [of "b # bs" u] skip_ws_simps(3) [of u] by (simp del: parse_elems.simps)
  with b assms(2) show "parse_value (Suc (Suc f)) d (CHR ''['' # u) = Some (JArr js, r)" by (simp del: parse_elems.simps)
qed

lemma reads_object:
  assumes "reads (\<lambda>f. parse_members f (Suc d) u) (ms, r)" and "d < maxNestingDepth"
  shows "reads (\<lambda>f. parse_value f d (CHR ''{'' # u)) (JObj ms, r)"
proof (rule reads_Suc [OF assms(1)])
  fix f assume members: "parse_members (Suc f) (Suc d) u = Some (ms, r)"
  then obtain bs where b: "skip_ws u = CHR 0x22 # bs" by (cases "skip_ws u") (auto split: if_splits)
  with members have "parse_members (Suc f) (Suc d) (CHR 0x22 # bs) = Some (ms, r)"
    using parse_skip_ws(3) [of "CHR 0x22 # bs" u] by (simp del: parse_members.simps)
  with b assms(2) show "parse_value (Suc (Suc f)) d (CHR ''{'' # u) = Some (JObj ms, r)" by (simp del: parse_members.simps)
qed

lemma reads_elem:
  assumes "reads (\<lambda>f. parse_value f d s) (j, t)"
  shows "skip_ws t = CHR '']'' # r \<Longrightarrow> reads (\<lambda>f. parse_elems f d s) ([j], r)"
    and "skip_ws t = CHR '','' # u \<Longrightarrow> reads (\<lambda>f. parse_elems f d u) (js, r) \<Longrightarrow> reads (\<lambda>f. parse_elems f d s) (j # js, r)"
  by (rule reads_Suc2 [OF assms assms], simp) (rule reads_Suc2 [OF assms], assumption, simp)

lemma reads_member:
  assumes "valid_utf8 k" and "reads (\<lambda>f. parse_value f d s) (j, t)"
  shows "skip_ws t = CHR ''}'' # r \<Longrightarrow> reads (\<lambda>f. parse_members f d (json_string k @ CHR '':'' # s)) ([(k, j)], r)"
    and "skip_ws t = CHR '','' # u \<Longrightarrow> reads (\<lambda>f. parse_members f d u) (ms, r) \<Longrightarrow>
      reads (\<lambda>f. parse_members f d (json_string k @ CHR '':'' # s)) ((k, j) # ms, r)"
  using parse_json_chars [OF assms(1), of "CHR '':'' # s"]
  by - (rule reads_Suc2 [OF assms(2) assms(2)], simp add: json_string_def,
        rule reads_Suc2 [OF assms(2)], assumption, simp add: json_string_def)

text \<open>\<open>readable d v s\<close>: at depth \<open>d\<close> the parser reads \<open>v\<close> from \<open>s\<close> and stops behind it.\<close>

definition readable :: "nat \<Rightarrow> gv \<Rightarrow> string \<Rightarrow> bool" where
  "readable d v s \<longleftrightarrow> (\<forall>r. delim r \<longrightarrow> (\<exists>j. to_gv j = Some v \<and> reads (\<lambda>f. parse_value f d (s @ r)) (j, r)))"

lemma readableD:
  assumes "readable d v s" and "delim r"
  obtains j where "to_gv j = Some v" "reads (\<lambda>f. parse_value f d (s @ r)) (j, r)"
  using assms unfolding readable_def by blast

lemma readable_elems:
  assumes "blank w" and "blank w'"
  shows "list_all2 (readable d) vs xs \<Longrightarrow> vs \<noteq> [] \<Longrightarrow>
    \<exists>js. to_gvs js = Some vs \<and> reads (\<lambda>f. parse_elems f d (joinStr (CHR '','' # w) xs @ w' @ CHR '']'' # r)) (js, r)"
proof (induction vs xs rule: list_all2_induct)
  case (Cons v vs x xs)
  show ?case
  proof (cases "vs = []")
    case True
    obtain j where "to_gv j = Some v" "reads (\<lambda>f. parse_value f d (x @ w' @ CHR '']'' # r)) (j, w' @ CHR '']'' # r)"
      using readableD [OF Cons.hyps(1) delim_intros(3) [OF assms(2), of r]] by blast
    with reads_elem(1) Cons.hyps(2) True assms(2) show ?thesis by (intro exI [of _ "[j]"]) simp
  next
    case False
    then have xs: "xs \<noteq> []" using Cons.hyps(2) by auto
    let ?u = "w @ joinStr (CHR '','' # w) xs @ w' @ CHR '']'' # r"
    obtain j where j: "to_gv j = Some v" "reads (\<lambda>f. parse_value f d (x @ CHR '','' # ?u)) (j, CHR '','' # ?u)"
      using readableD [OF Cons.hyps(1), of "CHR '','' # ?u"] delim_intros(2) [of "[]" ?u] by auto
    from Cons.IH [OF False] obtain js where js: "to_gvs js = Some vs" "reads (\<lambda>f. parse_elems f d ?u) (js, r)"
      using assms(1) by auto
    from reads_elem(2) [OF j(2) _ js(2)] j(1) js(1) xs show ?thesis
      by (intro exI [of _ "j # js"]) (simp add: joinStr_Cons)
  qed
qed simp

definition readable_member :: "nat \<Rightarrow> string \<Rightarrow> string \<times> gv \<Rightarrow> string \<Rightarrow> bool" where
  "readable_member d b p x \<longleftrightarrow>
     valid_utf8 (fst p) \<and> (\<exists>s. readable d (snd p) s \<and> x = json_string (fst p) @ CHR '':'' # b @ s)"

lemma map_put_last: "\<forall>q \<in> set m. fst q < k \<Longrightarrow> map_put k v m = m @ [(k, v)]"
  by (induction m) auto

lemma to_fields_next:
  assumes "to_gv j = Some v" and "\<forall>m0. keys_sorted (m0 @ m) \<longrightarrow> to_fields ms m0 = Some (m0 @ m)"
  shows "\<forall>m0. keys_sorted (m0 @ (k, v) # m) \<longrightarrow> to_fields ((k, j) # ms) m0 = Some (m0 @ (k, v) # m)"
proof (intro allI impI)
  fix m0 assume sorted: "keys_sorted (m0 @ (k, v) # m)"
  then have "map_put k v m0 = m0 @ [(k, v)]" by (intro map_put_last) (auto simp: keys_sorted_def sorted_wrt_append)
  with assms sorted show "to_fields ((k, j) # ms) m0 = Some (m0 @ (k, v) # m)" by simp
qed

lemma readable_members:
  assumes "blank w" and "blank w'" and "blank b"
  shows "list_all2 (readable_member d b) m xs \<Longrightarrow> m \<noteq> [] \<Longrightarrow>
    \<exists>ms. (\<forall>m0. keys_sorted (m0 @ m) \<longrightarrow> to_fields ms m0 = Some (m0 @ m))
      \<and> reads (\<lambda>f. parse_members f d (joinStr (CHR '','' # w) xs @ w' @ CHR ''}'' # r)) (ms, r)"
proof (induction m xs rule: list_all2_induct)
  case (Cons p m x xs)
  obtain k v where p: "p = (k, v)" by fastforce
  with Cons.hyps(1) obtain s where k: "valid_utf8 k" and s: "readable d v s" and x: "x = json_string k @ CHR '':'' # b @ s"
    by (auto simp: readable_member_def)
  show ?case
  proof (cases "m = []")
    case True
    obtain j where j: "to_gv j = Some v" "reads (\<lambda>f. parse_value f d (b @ s @ w' @ CHR ''}'' # r)) (j, w' @ CHR ''}'' # r)"
      using readableD [OF s delim_intros(4) [OF assms(2), of r]] parse_blank(1) [OF assms(3)] by auto
    from reads_member(1) [OF k j(2)] to_fields_next [OF j(1), of "[]" "[]" k] Cons.hyps(2) True assms(2) p x show ?thesis
      by (intro exI [of _ "[(k, j)]"]) simp
  next
    case False
    then have xs: "xs \<noteq> []" using Cons.hyps(2) by auto
    let ?u = "w @ joinStr (CHR '','' # w) xs @ w' @ CHR ''}'' # r"
    obtain j where j: "to_gv j = Some v" "reads (\<lambda>f. parse_value f d (b @ s @ CHR '','' # ?u)) (j, CHR '','' # ?u)"
      using readableD [OF s, of "CHR '','' # ?u"] delim_intros(2) [of "[]" ?u] assms(3) by auto
    from Cons.IH [OF False] obtain ms where ms: "\<forall>m0. keys_sorted (m0 @ m) \<longrightarrow> to_fields ms m0 = Some (m0 @ m)"
      "reads (\<lambda>f. parse_members f d ?u) (ms, r)" using assms(1) by auto
    from reads_member(2) [OF k j(2) _ ms(2)] to_fields_next [OF j(1) ms(1), of k] xs p x show ?thesis
      by (intro exI [of _ "(k, j) # ms"]) (simp add: joinStr_Cons)
  qed
qed simp

lemma readable_array:
  assumes "\<And>r. \<exists>js. to_gvs js = Some vs \<and> reads (\<lambda>f. parse_elems f (Suc d) (t @ CHR '']'' # r)) (js, r)"
    and "d < maxNestingDepth" and "blank w"
  shows "readable d (VSlice vs) (CHR ''['' # w @ t @ '']'')"
  unfolding readable_def
proof (intro allI impI)
  fix r
  from assms(1) [of r] obtain js where js: "to_gvs js = Some vs" "reads (\<lambda>f. parse_elems f (Suc d) (w @ t @ CHR '']'' # r)) (js, r)"
    using parse_blank(2) [OF assms(3)] by auto
  with reads_array [OF js(2) assms(2)] show
    "\<exists>j. to_gv j = Some (VSlice vs) \<and> reads (\<lambda>f. parse_value f d ((CHR ''['' # w @ t @ '']'') @ r)) (j, r)"
    by (intro exI [of _ "JArr js"]) simp
qed

lemma readable_object:
  assumes "\<And>r. \<exists>ms. (\<forall>m0. keys_sorted (m0 @ m) \<longrightarrow> to_fields ms m0 = Some (m0 @ m))
      \<and> reads (\<lambda>f. parse_members f (Suc d) (t @ CHR ''}'' # r)) (ms, r)"
    and "d < maxNestingDepth" and "blank w" and "keys_sorted m"
  shows "readable d (VMap m) (CHR ''{'' # w @ t @ ''}'')"
  unfolding readable_def
proof (intro allI impI)
  fix r
  from assms(1) [of r] obtain ms where ms: "\<forall>m0. keys_sorted (m0 @ m) \<longrightarrow> to_fields ms m0 = Some (m0 @ m)"
    "reads (\<lambda>f. parse_members f (Suc d) (w @ t @ CHR ''}'' # r)) (ms, r)"
    using parse_blank(3) [OF assms(3)] by auto
  then have "to_fields ms [] = Some m" using assms(4) by (metis append_Nil)
  with reads_object [OF ms(2) assms(2)] show
    "\<exists>j. to_gv j = Some (VMap m) \<and> reads (\<lambda>f. parse_value f d ((CHR ''{'' # w @ t @ ''}'') @ r)) (j, r)"
    by (intro exI [of _ "JObj ms"]) simp
qed

text \<open>Every text of a value that nests no deeper than the scanner allows is read back.\<close>

lemma text_readable: "text_of v s \<Longrightarrow> nests n v \<Longrightarrow> d + n \<le> maxNestingDepth \<Longrightarrow> readable d v s"
proof (induction arbitrary: n d rule: text_of.induct)
  case null
  then show ?case unfolding readable_def by (auto simp: parse_literal_def intro!: exI [of _ JNull] readsI)
next
  case true_text
  then show ?case unfolding readable_def by (auto simp: parse_literal_def intro!: exI [of _ "JBool True"] readsI)
next
  case false_text
  then show ?case unfolding readable_def by (auto simp: parse_literal_def intro!: exI [of _ "JBool False"] readsI)
next
  case (float x s)
  show ?case unfolding readable_def
  proof (intro allI impI)
    fix r assume "delim r"
    with json_float_value [OF float(1,2) delim_number_end, of r d] show
      "\<exists>j. to_gv j = Some (VFloat x) \<and> reads (\<lambda>f. parse_value f d (s @ r)) (j, r)" by (blast intro: readsI)
  qed
next
  case (string t)
  then show ?case unfolding readable_def
    by (auto simp: json_string_def parse_json_chars intro!: exI [of _ "JStr t"] readsI)
next
  case empty_slice
  then have "d < maxNestingDepth" by auto
  then show ?case unfolding readable_def by (auto intro!: exI [of _ "JArr []"] readsI)
next
  case (slice vs xs w w')
  then have n: "0 < n" "\<forall>v \<in> set vs. nests (n - 1) v" "Suc d + (n - 1) \<le> maxNestingDepth" by auto
  have "list_all2 (readable (Suc d)) vs xs"
    by (rule list.rel_mono_strong [OF slice(1)]) (use n in blast)
  from readable_elems [OF slice(3,4) this slice(2)] n(1,3) slice(3) show ?case
    using readable_array [of vs d "joinStr (CHR '','' # w) xs @ w'" w] by simp
next
  case empty_map
  then have "d < maxNestingDepth" by auto
  then show ?case unfolding readable_def by (auto intro!: exI [of _ "JObj []"] readsI)
next
  case (map b m xs w w')
  then have n: "0 < n" "\<forall>(k, v) \<in> set m. nests (n - 1) v" "Suc d + (n - 1) \<le> maxNestingDepth" by auto
  have "list_all2 (readable_member (Suc d) b) m xs"
    by (rule list.rel_mono_strong [OF map(1)]) (use n in \<open>auto simp: readable_member_def\<close>)
  from readable_members [OF map(4-6) this map(3)] n(1,3) map(2,4) show ?case
    using readable_object [of m d "joinStr (CHR '','' # w) xs @ w'" w] by simp
qed

lemma json_parse_text:
  assumes "text_of v s" and "nests maxNestingDepth v"
  shows "\<exists>j. json_parse s = Some j \<and> to_gv j = Some v"
proof -
  obtain j where j: "to_gv j = Some v" "reads (\<lambda>f. parse_value f 0 s) (j, [])"
    using readableD [OF text_readable [OF assms, of 0], of "[]"] by auto
  from j(2) obtain N where "\<forall>f \<ge> N. parse_value f 0 s = Some (j, [])" unfolding reads_def ..
  then have "parse_value (2 * length s + 2 + N) 0 s = Some (j, [])" using le_add2 by blast
  then have "parse_value (2 * length s + 2) 0 s = Some (j, [])" by (simp only: parse_fuel_enough)
  then have "json_parse s = Some j" by (simp add: json_parse_def skip_ws_def del: parse_value.simps)
  with j(1) show ?thesis by blast
qed

lemma json_parse_marshal:
  "marshal v = Some s \<Longrightarrow> clean v \<Longrightarrow> nests maxNestingDepth v \<Longrightarrow> \<exists>j. json_parse s = Some j \<and> to_gv j = Some v"
  by (rule json_parse_text [OF marshal_text_of(1)])

lemma to_gomap_of_to_gv:
  "to_gv j = Some (VMap m) \<Longrightarrow> to_gomap j = Some (Some m)"
  "to_gv j = Some VNil \<Longrightarrow> to_gomap j = Some None"
  by (cases j; auto)+

section \<open>Decoded values are clean\<close>

text \<open>The strings and the depth of a syntax tree.\<close>

fun clean_json :: "nat \<Rightarrow> json \<Rightarrow> bool" where
  "clean_json d (JStr s) = valid_utf8 s"
| "clean_json d (JArr vs) = (0 < d \<and> (\<forall>v \<in> set vs. clean_json (d - 1) v))"
| "clean_json d (JObj ms) = (0 < d \<and> (\<forall>(k, v) \<in> set ms. valid_utf8 k \<and> clean_json (d - 1) v))"
| "clean_json d _ = True"

lemma parse_literal_clean: "parse_literal s = Some (v, r) \<Longrightarrow> clean_json d v"
  by (auto simp: parse_literal_def parse_number_def Let_def split: if_splits option.splits)

lemma parse_clean:
  shows "parse_value f d s = Some (v, r) \<Longrightarrow> d \<le> maxNestingDepth \<Longrightarrow> clean_json (maxNestingDepth - d) v"
    and "parse_elems f d s = Some (vs, r) \<Longrightarrow> d \<le> maxNestingDepth \<Longrightarrow> \<forall>v \<in> set vs. clean_json (maxNestingDepth - d) v"
    and "parse_members f d s = Some (ms, r) \<Longrightarrow> d \<le> maxNestingDepth \<Longrightarrow>
      \<forall>(k, v) \<in> set ms. valid_utf8 k \<and> clean_json (maxNestingDepth - d) v"
proof (induction f d s and f d s and f d s arbitrary: v r and vs r and ms r
    rule: parse_value_parse_elems_parse_members.induct)
  case (2 f d s)
  then show ?case
    by (auto split: list.splits if_splits intro: parse_literal_clean parse_string_valid
        simp: diff_Suc_eq_diff_pred [symmetric])
next
  case (4 f d s)
  then show ?case by (auto split: option.splits list.splits if_splits)
next
  case (6 f d s)
  then obtain qs k r1 cs v1 r2 e es where p: "skip_ws s = CHR 0x22 # qs" "parse_string qs = Some (k, r1)"
    "skip_ws r1 = CHR '':'' # cs" "parse_value f d cs = Some (v1, r2)" "skip_ws r2 = e # es"
    and ms: "e = CHR ''}'' \<and> ms = [(k, v1)] \<or> e = CHR '','' \<and> (\<exists>ms'. parse_members f d es = Some (ms', r) \<and> ms = (k, v1) # ms')"
    by (auto split: option.splits list.splits if_splits)
  have "valid_utf8 k" using p(2) by (rule parse_string_valid)
  moreover have "clean_json (maxNestingDepth - d) v1" using 6(1) [OF p(1) _ p(2) refl p(3)] p(4) 6(4) by simp
  moreover have "\<forall>(k, v) \<in> set ms'. valid_utf8 k \<and> clean_json (maxNestingDepth - d) v"
    if "parse_members f d es = Some (ms', r)" "e = CHR '',''" for ms'
    using 6(2) [OF p(1) _ p(2) refl p(3) _ p(4) refl p(5)] that 6(4) by simp
  ultimately show ?case using ms by auto
qed simp_all

lemma to_gv_clean:
  shows "to_gv j = Some v \<Longrightarrow> clean_json d j \<Longrightarrow> clean v \<and> nests d v"
    and "to_gvs js = Some vs \<Longrightarrow> \<forall>j \<in> set js. clean_json d j \<Longrightarrow> \<forall>v \<in> set vs. clean v \<and> nests d v"
    and "to_fields ms m = Some m' \<Longrightarrow> \<forall>(k, j) \<in> set ms. valid_utf8 k \<and> clean_json d j \<Longrightarrow> clean_map m \<Longrightarrow>
      \<forall>(k, v) \<in> set m. nests d v \<Longrightarrow> clean_map m' \<and> (\<forall>(k, v) \<in> set m'. nests d v)"
proof (induction j and js and ms m arbitrary: v d and vs d and m' d rule: to_gv_to_gvs_to_fields.induct)
  case (3 neg ip fp ex)
  then obtain x where "float_of_decimal neg (digits_val (ip @ fp) 0)
      ((case ex of None \<Rightarrow> 0 | Some e \<Rightarrow> e) - int (length fp)) = Some x" "v = VFloat x" by auto
  with float_of_decimal_canonical [OF digits_val_nonneg [of 0 "ip @ fp"]] show ?case by simp
next
  case (6 ms)
  then obtain m where m: "to_fields ms [] = Some m" "v = VMap m" by auto
  from 6(1) [OF m(1), of "d - 1"] 6(3) have "clean_map m" "\<forall>(k, v) \<in> set m. nests (d - 1) v" "0 < d" by auto
  then show ?case by (simp add: m(2) clean_map_def del: clean.simps)
next
  case (10 k j ms m)
  then obtain x where x: "to_gv j = Some x" "to_fields ms (map_put k x m) = Some m'" by (auto split: option.splits)
  have "clean x" "nests d x" "valid_utf8 k" using 10(1) [OF x(1), of d] 10(4) by auto
  moreover from this have "clean_map (map_put k x m)" "\<forall>(k, v) \<in> set (map_put k x m). nests d v"
    using 10(5,6) set_map_put [of k x m] by (auto simp: clean_map_put)
  ultimately show ?case using 10(2) [OF x(1,2)] 10(4) by auto
qed (auto split: option.splits)

lemma json_parse_clean: "json_parse s = Some j \<Longrightarrow> clean_json maxNestingDepth j"
  using parse_clean(1) [of "2 * length s + 2" 0 s]
  by (auto simp: json_parse_def simp del: parse_value.simps split: option.splits if_splits)

end
