(* ===== verification/Enhance_Roundtrip.thy ===== *)
theory Enhance_Roundtrip
  imports Enhance Json_Roundtrip
begin

text \<open>
  From the bytes of a payload to the bytes of the chunks and back: every item that is decoded, enhanced, marshalled
  and cut into chunks is read again from its line as the same map. The typing invariant is
  \<open>clean_item\<close>; decoding establishes it and every branch of \<open>enhanceLogs\<close> keeps it.
\<close>

section \<open>Clean items\<close>

fun clean_item :: "gomap option \<Rightarrow> bool" where
  "clean_item None = True"
| "clean_item (Some m) = clean_map m"

fun nests_item :: "gomap option \<Rightarrow> bool" where
  "nests_item None = True"
| "nests_item (Some m) = nests maxNestingDepth (VMap m)"

lemma clean_map_wf: "clean_map m \<Longrightarrow> wf_gomap m"
  using clean_wf [of "VMap m"] by (simp add: clean_map_def)

lemma to_gomap_clean: "to_gomap j = Some i \<Longrightarrow> clean_json d j \<Longrightarrow> clean_item i"
proof (cases j)
  case (JObj ms)
  assume "to_gomap j = Some i" "clean_json d j"
  with JObj obtain m where "to_gv j = Some (VMap m)" "i = Some m" by auto
  with to_gv_clean(1) [of j "VMap m" d] \<open>clean_json d j\<close> show ?thesis by (simp add: clean_map_def)
qed auto

lemma to_gomaps_clean:
  "to_gomaps js = Some ms \<Longrightarrow> \<forall>j \<in> set js. clean_json d j \<Longrightarrow> list_all clean_item ms"
  by (induction js arbitrary: ms) (auto split: option.splits dest: to_gomap_clean)

lemma transform_clean: "transformBytesToArrayOfMap raw = Inr msg \<Longrightarrow> list_all clean_item msg"
proof -
  assume "transformBytesToArrayOfMap raw = Inr msg"
  then obtain j where j: "json_parse raw = Some j" "to_responseBody j = Some msg"
    by (auto simp: transformBytesToArrayOfMap_def split: option.splits)
  from json_parse_clean [OF j(1)] j(2) show ?thesis by (cases j) (auto intro: to_gomaps_clean)
qed

lemma ParseJson_clean: "ParseJson s = Inr i \<Longrightarrow> clean_item i"
  by (auto simp: ParseJson_def split: option.splits intro: to_gomap_clean json_parse_clean)

lemma clean_gv_of_map: "clean_item i \<Longrightarrow> clean (gv_of_map i)"
  by (cases i) (simp_all add: gv_of_map_def clean_map_def del: clean.simps(5))

section \<open>Printed values\<close>

definition ascii :: "string \<Rightarrow> bool" where
  "ascii s = (\<forall>c \<in> set s. (of_char c :: int) < 0x80)"

lemma ascii_valid: "ascii s \<Longrightarrow> valid_utf8 s"
  by (simp add: ascii_def valid_utf8_ascii)

lemma ascii_show_uint: "0 \<le> n \<Longrightarrow> ascii (show_uint n)"
  unfolding ascii_def
proof
  fix c assume "0 \<le> n" "c \<in> set (show_uint n)"
  then obtain d where "0 \<le> d" "d < 10" "c = digit_char d" using show_uint_digits by blast
  then show "(of_char c :: int) < 0x80" by (simp add: of_char_digit_char)
qed

lemma ascii_show_int: "ascii (show_int n)"
  using ascii_show_uint [of n] ascii_show_uint [of "- n"] by (simp add: show_int_def ascii_def)

lemma ascii_shortest: "shortest m k = (ds, dp) \<Longrightarrow> ascii ds"
  using ascii_show_int by (auto simp: shortest_def ascii_def Let_def split: if_splits prod.splits dest!: set_dropWhileD)

lemma ascii_fmtF: "ascii ds \<Longrightarrow> ascii (fmtF ds dp)"
  by (auto simp: ascii_def fmtF_def Let_def dest!: in_set_takeD in_set_dropD)

lemma ascii_fmtE: "ascii ds \<Longrightarrow> ascii (fmtE w ds dp)"
  using ascii_show_int by (cases ds) (auto simp: ascii_def fmtE_def Let_def)

lemma fmt_v_float_valid: "valid_utf8 (fmt_v_float x)"
proof (cases x)
  case (Fin neg m k)
  obtain ds dp where sh: "shortest m k = (ds, dp)" by fastforce
  have "ascii (sign_str neg)" by (simp add: sign_str_def ascii_def)
  then have "ascii (fmt_v_float x)"
    using ascii_fmtF [OF ascii_shortest [OF sh], of dp] ascii_fmtE [OF ascii_shortest [OF sh], of 2 dp]
    by (simp add: Fin sh ascii_def ball_Un)
  then show ?thesis by (rule ascii_valid)
qed simp_all

lemma fmt_v_valid:
  shows "clean v \<Longrightarrow> valid_utf8 (fmt_v v)"
    and "\<forall>v \<in> set vs. clean v \<Longrightarrow> \<forall>s \<in> set (fmt_vs vs). valid_utf8 s"
    and "\<forall>(k, v) \<in> set m. valid_utf8 k \<and> clean v \<Longrightarrow> \<forall>s \<in> set (fmt_fields m). valid_utf8 s"
  by (induction v and vs and m rule: fmt_v_fmt_vs_fmt_fields.induct)
     (simp_all add: fmt_v_float_valid valid_utf8_append valid_utf8_joinStr)

lemma get_or_nil_valid: "clean_map m \<Longrightarrow> valid_utf8 (fmt_v (get_or_nil m k))"
  by (auto simp: get_or_nil_def intro: fmt_v_valid(1) clean_map_get split: option.splits)

lemma report_line_valid: "clean_map message \<Longrightarrow> clean_map metric \<Longrightarrow> valid_utf8 (report_line message metric)"
  by (simp add: report_line_def valid_utf8_append get_or_nil_valid)

section \<open>Enhancing keeps items clean\<close>

text \<open>The strings of the environment that reach an item.\<close>

definition clean_env :: "ext \<Rightarrow> sumoLogicClient \<Rightarrow> bool" where
  "clean_env x s \<longleftrightarrow>
     valid_utf8 (ExtensionName x) \<and> valid_utf8 (FunctionName (config s)) \<and> valid_utf8 (FunctionVersion (config s))"

lemma show_int02_valid: "valid_utf8 (show_int02 n)"
  by (simp add: show_int02_def)

lemma with_metadata_clean: "clean_env x s \<Longrightarrow> clean_map m \<Longrightarrow> clean_map (with_metadata x s n m)"
  by (simp add: with_metadata_def clean_map_put clean_env_def stream_at_def getLogGroup_def Let_def
      SumoLogicExtensionLayerVersionSuffix_def layerVersion_def valid_utf8_append show_int02_valid)

lemma createCWLogLine_clean:
  assumes "clean_map m" and "createCWLogLine m = Ret m'"
  shows "clean_map m'"
proof -
  let ?message = "case map_get m ''record'' of Some (VMap r) \<Rightarrow> r | _ \<Rightarrow> []"
  have message: "clean_map ?message"
    using clean_map_get [OF assms(1), of "''record''"] by (auto simp: clean_map_def split: option.splits gv.splits)
  from assms(2) obtain metric where metric: "get_or_nil ?message ''metrics'' = VMap metric"
    by (auto simp: createCWLogLine_def Let_def split: gv.splits)
  then have "map_get ?message ''metrics'' = Some (VMap metric)" by (simp add: get_or_nil_def split: option.splits)
  from clean_map_get [OF message this] have "clean_map metric" by (simp add: clean_map_def)
  with message metric assms show ?thesis
    by (auto simp: createCWLogLine_def Let_def valid_utf8_append report_line_valid get_or_nil_valid
        intro!: clean_map_put split: if_splits)
qed

lemma enhanceFunctionLog_clean: "clean_map m \<Longrightarrow> clean_item (enhanceFunctionLog s m)"
proof -
  assume m: "clean_map m"
  define text0 where "text0 = (case map_get m ''record'' of Some (VString t) \<Rightarrow> t | _ \<Rightarrow> [])"
  define item where "item = (case map_get m ''record'' of Some (VString t) \<Rightarrow> map_del ''record'' m | _ \<Rightarrow> m)"
  have "valid_utf8 text0" using clean_map_get [OF m, of "''record''"] by (auto simp: text0_def split: option.splits gv.splits)
  then have msg: "valid_utf8 (TrimSpace text0)" by (rule TrimSpace_valid)
  have item: "clean_map item" using m by (auto simp: item_def clean_map_del split: option.splits gv.splits)
  have "clean_map (map_put ''message'' v i)" if "clean v" "clean_map i" for v i
    using that by (intro clean_map_put) simp_all
  then show ?thesis
    unfolding enhanceFunctionLog_def text0_def [symmetric] item_def [symmetric] Let_def
    using msg item ParseJson_clean clean_gv_of_map by (auto simp del: map_put.simps split: sum.splits)
qed

lemma dropSpans_clean: "clean_map m \<Longrightarrow> clean_map (dropSpans s m)"
proof -
  assume m: "clean_map m"
  have "clean_map (map_put ''record'' (VMap (map_del ''spans'' r)) m)" if "map_get m ''record'' = Some (VMap r)" for r
    using that m clean_map_get [OF m that] clean_map_del [of r] by (intro clean_map_put) (auto simp: clean_map_def)
  with m show ?thesis by (auto simp: dropSpans_def split: option.splits gv.splits)
qed

lemma enhanceItem_clean:
  assumes "clean_env x s" and "clean_item i" and "enhanceItem x s i w = (Ret i', w')"
  shows "clean_item i'"
proof (cases i)
  case None
  with assms(3) show ?thesis by (simp add: enhanceItem_def)
next
  case (Some m)
  let ?m = "with_metadata x s (w_tick w) m"
  have m: "clean_map ?m" using assms(1,2) Some by (simp add: with_metadata_clean)
  have "enhanceByType s ?m = Ret i'" using assms(3) Some by (simp add: enhanceItem_eq)
  then show ?thesis
    using m enhanceFunctionLog_clean [OF m, of s] dropSpans_clean [OF m, of s] createCWLogLine_clean [OF m]
    by (auto simp: enhanceByType_def split: option.splits gv.splits if_splits outcome.splits)
qed

lemma enhanceLogs_clean:
  "clean_env x s \<Longrightarrow> list_all clean_item msg \<Longrightarrow> enhanceLogs x s msg w = (Ret msg', w') \<Longrightarrow> list_all clean_item msg'"
proof (induction msg arbitrary: w msg')
  case (Cons i msg)
  from Cons.prems(3) obtain i' w1 where item: "enhanceItem x s i w = (Ret i', w1)" by (auto elim: bindA_RetE)
  with Cons.prems obtain is' where "enhanceLogs x s msg w1 = (Ret is', w')" "msg' = i' # is'"
    by (subst (asm) enhanceLogs_Cons_Ret) (auto split: prod.splits outcome.splits)
  with Cons item enhanceItem_clean [of x s i w i' w1] show ?case by auto
qed simp

section \<open>Lines decode to items\<close>

lemma ParseJson_marshal_map:
  assumes "clean_item i" and "nests_item i" and "marshal_map i = Some s"
  shows "ParseJson s = Inr i"
proof (cases i)
  case None
  with assms(3) have s: "s = ''null''" by (simp add: marshal_map_def)
  have "ParseJson ''null'' = Inr None" by code_simp
  with None s show ?thesis by simp
next
  case (Some m)
  with assms obtain j where "json_parse s = Some j" "to_gv j = Some (VMap m)"
    using json_parse_marshal [of "VMap m" s] by (auto simp: marshal_map_def clean_map_def simp del: marshal.simps)
  with Some to_gomap_of_to_gv(1) show ?thesis by (simp add: ParseJson_def)
qed

lemma marshalled_decode:
  "list_all clean_item items \<Longrightarrow> list_all nests_item items \<Longrightarrow> map ParseJson (marshalled items) = map Inr items"
proof (induction items)
  case (Cons i items)
  have "wf_item i" using Cons.prems(1) clean_map_wf by (cases i) auto
  then obtain b where "marshal_map i = Some b"
    using marshal_map_wf by (cases i) (auto simp: marshal_map_def [of None])
  with Cons ParseJson_marshal_map [of i b] show ?case by (simp add: map_filter_marshal_Cons)
qed (simp add: List.map_filter_simps)

section \<open>Properties\<close>

text \<open>
  C11. Typing of the items. Whatever bytes a payload holds, the items decoded from it are clean (finite
  canonical numbers, valid UTF-8 strings and keys, every map with each key once), and each branch of \<open>enhanceLogs\<close>
  keeps them clean when the names taken from the environment are valid UTF-8.
\<close>

theorem enhanceLogs_preserves_typing:
  assumes "transformBytesToArrayOfMap rawmsg = Inr msg" and "clean_env x s"
    and "enhanceLogs x s msg w = (Ret msg', w')"
  shows "list_all clean_item msg \<and> list_all clean_item msg' \<and> length msg' = length msg"
  using transform_clean [OF assms(1)] enhanceLogs_clean [OF assms(2) _ assms(3)]
    enhanceLogs_wf [OF transform_wf [OF assms(1)] assms(3)] by simp

lemma sample_clean_env: "clean_env sample_ext sample_client"
  by code_simp

theorem enhanceLogs_preserves_typing_witness: "list_all clean_item [Some sample_item] \<and> list_all clean_item [Some sample_enhanced]"
  using enhanceLogs_preserves_typing [OF sample_payload_parses sample_clean_env sample_payload_enhances] by simp

text \<open>
  C3. Round trip of the posted data. The lines of the chunks made from a payload, read again as JSON, are exactly
  the enhanced items, in order: no number loses precision, no character changes, no key is lost and no
  line is cut. The only items left out nest deeper than the decoder of \<open>encoding/json\<close> itself accepts.
\<close>

theorem posted_lines_decode:
  assumes "transformBytesToArrayOfMap rawmsg = Inr msg" and "clean_env x s"
    and "enhanceLogs x s msg w = (Ret msg', w')" and "list_all nests_item msg'"
  shows "map ParseJson (concat (map nonempty_lines (fst (createChunks s msg')))) = map Inr msg'"
  unfolding createChunks_result(1)
  using marshalled_decode enhanceLogs_clean [OF assms(2) transform_clean [OF assms(1)] assms(3)] assms(4) by blast

text \<open>A payload with a number, escapes and a multi-byte character, and what it becomes.\<close>

definition rich_payload :: bytes where
  "rich_payload = joinStr [CHR 0x5C]
     [''[{\"type\":\"function\",\"record\":\"{'', ''\"n'', ''\":0.1,'', ''\"s'', ''\":'', ''\"<'', ''u00e9'', [], ''n>'', ''\"}\"}]'']"

definition rich_item :: gomap where
  "rich_item =
     [(''record'', VString (''{\"n\":0.1,\"s\":\"<'' @ [CHR 0xC3, CHR 0xA9] @ [CHR 0x5C] @ ''n>\"}'')), (''type'', VString ''function'')]"

definition rich_enhanced :: gomap where
  "rich_enhanced =
     [(''IsColdStart'', VBool False), (''LayerVersion'', VString ''sumologic-extension-prod:11''),
      (''logGroup'', VString ''/aws/lambda/''), (''logStream'', VString ''2024/05/07/[]sumologic-extension''),
      (''message'', VMap [(''n'', VFloat (Fin False 7205759403792794 (- 56))),
                           (''s'', VString (''<'' @ [CHR 0xC3, CHR 0xA9, CHR 0x0A] @ ''>''))]),
      (''type'', VString ''function'')]"

lemma rich_payload_parses: "transformBytesToArrayOfMap rich_payload = Inr [Some rich_item]"
  by code_simp

lemma rich_payload_enhances:
  "enhanceLogs sample_ext sample_client [Some rich_item] sample_world =
     (Ret [Some rich_enhanced], sample_world\<lparr>w_tick := 1, isColdStart := False\<rparr>)"
  by code_simp

theorem posted_lines_decode_witness:
  "map ParseJson (concat (map nonempty_lines (fst (createChunks sample_client [Some rich_enhanced])))) = [Inr (Some rich_enhanced)]"
proof -
  have "list_all nests_item [Some rich_enhanced]" by (simp add: rich_enhanced_def maxNestingDepth_def)
  from posted_lines_decode [OF rich_payload_parses sample_clean_env rich_payload_enhances this] show ?thesis by simp
qed

end
