(* ===== verification/Extension_Runs.thy ===== *)
theory Extension_Runs
  imports Extension_Props Enhance_Roundtrip
begin

text \<open>
  Whole runs of the standard loop, over any number of turns and whatever the runtime answers. How far a run
  went is read off the log of the world: the answers to its requests for events. What was posted is compared with
  everything the handlers took in up to there.
\<close>

section \<open>Requests of a run\<close>

definition log_posts :: "world \<Rightarrow> world \<Rightarrow> bytes list" where
  "log_posts w w' = map (\<lambda>p. rq_body (fst p)) (filter (\<lambda>p. rq_method (fst p) = ''POST'') (new_http w w'))"

lemma log_posts_refl [simp]: "log_posts w w = []"
  by (simp add: log_posts_def)



text \<open>The answers to the requests for an event, and what the program reads in one.\<close>

definition event_answers :: "world \<Rightarrow> world \<Rightarrow> (error + response) list" where
  "event_answers w w' = map snd (filter (\<lambda>p. rq_method (fst p) = ''GET'') (new_http w w'))"






lemma event_answers_refl [simp]: "event_answers w w = []"
  by (simp add: event_answers_def new_http_def)






section \<open>Items and their lines\<close>

text \<open>\<open>line_of x s i l\<close>: the line \<open>l\<close> is the JSON text of what \<open>enhanceItem\<close> makes of the item \<open>i\<close>.\<close>

definition line_of :: "ext \<Rightarrow> sumoLogicClient \<Rightarrow> gomap option \<Rightarrow> string \<Rightarrow> bool" where
  "line_of x s i l \<longleftrightarrow> (\<exists>w i' w'. enhanceItem x s i w = (Ret i', w') \<and> marshal_map i' = Some l)"


section \<open>One drain\<close>

text \<open>The bodies of handing \<open>msgs\<close> to the client: compressed chunks whose lines are those of the items, in order.\<close>

definition shipped :: "ext \<Rightarrow> sumoLogicClient \<Rightarrow> bytes list \<Rightarrow> bytes list \<Rightarrow> bool" where
  "shipped x s msgs bodies \<longleftrightarrow>
     (\<exists>chunks. bodies = map (gzip_Output x) chunks
        \<and> list_all2 (line_of x s) (all_items msgs) (concat (map nonempty_lines chunks)))"

lemma shipped_Nil [simp]: "shipped x s [] []"
  by (auto simp: shipped_def intro: exI [of _ "[]"])



section \<open>Runs of the loop\<close>

definition arrived :: "turn list \<Rightarrow> bytes list" where
  "arrived ts = concat (map (\<lambda>t. ingested (arrivals t) @ ingested (late_arrivals t)) ts)"

lemma arrived_simps [simp]:
  "arrived [] = []" "arrived (t # ts) = ingested (arrivals t) @ ingested (late_arrivals t) @ arrived ts"
  by (simp_all add: arrived_def)

definition good_msgs :: "bytes list \<Rightarrow> bool" where
  "good_msgs msgs \<longleftrightarrow> list_all safe_item (all_items msgs) \<and> bad_payloads msgs = 0"

lemma good_msgs_append [simp]: "good_msgs (a @ b) \<longleftrightarrow> good_msgs a \<and> good_msgs b"
  by (auto simp: good_msgs_def)






section \<open>Property\<close>




end
