(* ===== verification/Config_Roundtrip.thy ===== *)
theory Config_Roundtrip
  imports Config_Props Samples
begin

text \<open>
  The configuration as a round trip: the environment that prints every setting of a configuration is read
  back by \<open>GetConfig\<close> as that configuration, without an error.
\<close>

section \<open>Printing a configuration\<close>

definition show_bool :: "bool \<Rightarrow> string" where
  "show_bool b = (if b then ''true'' else ''false'')"

text \<open>The retry delay in milliseconds, as its variable holds it.\<close>

definition delay_ms :: "LambdaExtensionConfig \<Rightarrow> int" where
  "delay_ms c = sint (RetrySleepTime c) div 1000000"

definition settings :: "string \<Rightarrow> LambdaExtensionConfig \<Rightarrow> (string \<times> string) list" where
  "settings level c =
     [(''SUMO_HTTP_ENDPOINT'', SumoHTTPEndpoint c), (''KMS_KEY_ID'', KMSKeyId c),
      (''SUMO_S3_BUCKET_NAME'', S3BucketName c), (''SUMO_S3_BUCKET_REGION'', S3BucketRegion c),
      (''AWS_LAMBDA_RUNTIME_API'', AWSLambdaRuntimeAPI c), (''AWS_LAMBDA_FUNCTION_NAME'', FunctionName c),
      (''AWS_LAMBDA_FUNCTION_VERSION'', FunctionVersion c), (''AWS_REGION'', LambdaRegion c),
      (''SOURCE_CATEGORY_OVERRIDE'', SourceCategoryOverride c),
      (''SUMO_ENABLE_FAILOVER'', show_bool (EnableFailover c)), (''SUMO_NUM_RETRIES'', show_int (NumRetry c)),
      (''SUMO_RETRY_SLEEP_TIME_MS'', show_int (delay_ms c)), (''SUMO_LOG_LEVEL'', level),
      (''SUMO_MAX_DATAQUEUE_LENGTH'', show_int (MaxDataQueueLength c)),
      (''SUMO_MAX_CONCURRENT_REQUESTS'', show_int (MaxConcurrentRequests c)),
      (''SUMO_LOG_TYPES'', joinStr '','' (LogTypes c)), (''SUMO_ENHANCE_JSON_LOGS'', show_bool (EnhanceJsonLogs c)),
      (''SUMO_SPAN_DROP'', show_bool (EnableSpanDrops c)), (''KMS_CACHE_SECONDS'', show_int (KmsCacheSeconds c)),
      (''TELEMETRY_TIMEOUT_MS'', show_int (TelemetryTimeoutMs c)),
      (''TELEMETRY_MAX_BYTES'', show_int (TelemetryMaxBytes c)),
      (''TELEMETRY_MAX_ITEMS'', show_int (TelemetryMaxItems c))]"

definition environment :: "string \<Rightarrow> LambdaExtensionConfig \<Rightarrow> string \<Rightarrow> string" where
  "environment level c key = (case map_of (settings level c) key of None \<Rightarrow> [] | Some s \<Rightarrow> s)"

definition int32 :: "int \<Rightarrow> bool" where
  "int32 n \<longleftrightarrow> - (2 ^ 31) \<le> n \<and> n < 2 ^ 31"

text \<open>The configurations the environment can express: the ranges of the variables, and the constants of \<open>GetConfig\<close>.\<close>

definition expressible :: "LambdaExtensionConfig \<Rightarrow> bool" where
  "expressible c \<longleftrightarrow>
     SumoHTTPEndpoint c \<noteq> [] \<and> AWSLambdaRuntimeAPI c \<noteq> []
     \<and> (\<not> EnableFailover c \<or> S3BucketName c \<noteq> [] \<and> S3BucketRegion c \<noteq> [])
     \<and> list_all int32 [NumRetry c, delay_ms c, MaxDataQueueLength c, MaxConcurrentRequests c, KmsCacheSeconds c]
     \<and> RetrySleepTime c = word_of_int (delay_ms c) * Millisecond
     \<and> LogTypes c \<noteq> [] \<and> list_all (\<lambda>t. t \<in> set validLogTypes) (LogTypes c)
     \<and> 25 \<le> TelemetryTimeoutMs c \<and> TelemetryTimeoutMs c \<le> 30000
     \<and> 262144 \<le> TelemetryMaxBytes c \<and> TelemetryMaxBytes c \<le> 1048576
     \<and> 1000 \<le> TelemetryMaxItems c \<and> TelemetryMaxItems c \<le> 10000
     \<and> MaxRetryAttempts c = 5 \<and> ConnectionTimeoutValue c = 10000 * Millisecond \<and> MaxDataPayloadSize c = 1024 * 1024"

section \<open>Single variables\<close>

lemma environment_lookup:
  "environment level c ''SUMO_HTTP_ENDPOINT'' = SumoHTTPEndpoint c"
  "environment level c ''KMS_KEY_ID'' = KMSKeyId c"
  "environment level c ''SUMO_S3_BUCKET_NAME'' = S3BucketName c"
  "environment level c ''SUMO_S3_BUCKET_REGION'' = S3BucketRegion c"
  "environment level c ''AWS_LAMBDA_RUNTIME_API'' = AWSLambdaRuntimeAPI c"
  "environment level c ''AWS_LAMBDA_FUNCTION_NAME'' = FunctionName c"
  "environment level c ''AWS_LAMBDA_FUNCTION_VERSION'' = FunctionVersion c"
  "environment level c ''AWS_REGION'' = LambdaRegion c"
  "environment level c ''SOURCE_CATEGORY_OVERRIDE'' = SourceCategoryOverride c"
  "environment level c ''SUMO_ENABLE_FAILOVER'' = show_bool (EnableFailover c)"
  "environment level c ''SUMO_NUM_RETRIES'' = show_int (NumRetry c)"
  "environment level c ''SUMO_RETRY_SLEEP_TIME_MS'' = show_int (delay_ms c)"
  "environment level c ''SUMO_LOG_LEVEL'' = level"
  "environment level c ''SUMO_MAX_DATAQUEUE_LENGTH'' = show_int (MaxDataQueueLength c)"
  "environment level c ''SUMO_MAX_CONCURRENT_REQUESTS'' = show_int (MaxConcurrentRequests c)"
  "environment level c ''SUMO_LOG_TYPES'' = joinStr '','' (LogTypes c)"
  "environment level c ''SUMO_ENHANCE_JSON_LOGS'' = show_bool (EnhanceJsonLogs c)"
  "environment level c ''SUMO_SPAN_DROP'' = show_bool (EnableSpanDrops c)"
  "environment level c ''KMS_CACHE_SECONDS'' = show_int (KmsCacheSeconds c)"
  "environment level c ''TELEMETRY_TIMEOUT_MS'' = show_int (TelemetryTimeoutMs c)"
  "environment level c ''TELEMETRY_MAX_BYTES'' = show_int (TelemetryMaxBytes c)"
  "environment level c ''TELEMETRY_MAX_ITEMS'' = show_int (TelemetryMaxItems c)"
  by (simp_all add: environment_def settings_def)

lemma show_bool_parsed [simp]: "ParseBool (show_bool b) = (b, None)" "show_bool b \<noteq> []"
  by (simp_all add: show_bool_def ParseBool_def)

lemma int32_parsed: "int32 n \<Longrightarrow> ParseInt 32 (show_int n) = (n, None)"
  by (simp add: int32_def ParseInt_show_int)

lemma max_bytes_parsed: "262144 \<le> n \<Longrightarrow> n \<le> 1048576 \<Longrightarrow> ParseInt 64 (show_int n) = (n, None)"
  by (simp add: ParseInt_show_int)

lemma stored_without_error:
  "allErrors (store_bool upd name (show_bool b) v) = allErrors v"
  "int32 n \<Longrightarrow> allErrors (store_int32 updi name (show_int n) v) = allErrors v"
  "ParseInt bits s = (n, None) \<Longrightarrow> allErrors (assign_int bits updi name s v) = allErrors v"
  by (simp_all add: store_bool_def store_int32_def assign_int_def int32_parsed)

lemma clamp_inside: "lo \<le> n \<Longrightarrow> n \<le> hi \<Longrightarrow> clamp lo hi n = n"
  by (simp add: clamp_def)

lemma expressibleD:
  assumes "expressible c"
  shows "int32 (NumRetry c)" "int32 (delay_ms c)" "int32 (MaxDataQueueLength c)" "int32 (MaxConcurrentRequests c)"
    "int32 (KmsCacheSeconds c)" "int32 (TelemetryTimeoutMs c)" "int32 (TelemetryMaxBytes c)" "int32 (TelemetryMaxItems c)"
  using assms by (simp_all add: expressible_def int32_def)

text \<open>The log types.\<close>

lemma valid_type: "t \<in> set validLogTypes \<Longrightarrow> TrimSpace t = t \<and> CHR '','' \<notin> set t \<and> t \<noteq> [] \<and> StringInSlice t validLogTypes"
proof -
  have "list_all (\<lambda>t. TrimSpace t = t \<and> CHR '','' \<notin> set t \<and> t \<noteq> [] \<and> StringInSlice t validLogTypes) validLogTypes"
    by code_simp
  then show "t \<in> set validLogTypes \<Longrightarrow> ?thesis" by (simp add: list_all_iff)
qed

lemma valid_types_split: "ts \<noteq> [] \<Longrightarrow> list_all (\<lambda>t. t \<in> set validLogTypes) ts \<Longrightarrow> Split_comma (joinStr '','' ts) = ts"
  unfolding Split_comma_def by (rule split_on_joinStr) (auto simp: list_all_iff dest: valid_type)

lemma valid_types_joined: "ts \<noteq> [] \<Longrightarrow> list_all (\<lambda>t. t \<in> set validLogTypes) ts \<Longrightarrow> joinStr '','' ts \<noteq> []"
  by (cases ts; cases "tl ts") (auto dest: valid_type)

lemma valid_types_accepted:
  "list_all (\<lambda>t. t \<in> set validLogTypes) ts \<Longrightarrow> check_logTypes ts v = v"
  by (induction ts arbitrary: v) (auto dest: valid_type)

section \<open>The round trip\<close>

text \<open>Reading the printed settings: the defaults, then the checks, field by field.\<close>

lemma printed_config:
  assumes "expressible c" and "level \<noteq> []" and "os_Getenv x = environment level c"
    and "logrus_ParseLevel x level = Inr (LogLevel c)"
  shows "fst (GetConfig x) = c"
proof -
  note env = assms(3) environment_lookup
  note ne = show_int_not_Nil expressibleD [OF assms(1), THEN int32_parsed]
  have delay: "RetrySleepTime c = word_of_int (delay_ms c) * Millisecond"
    and range: "25 \<le> TelemetryTimeoutMs c" "TelemetryTimeoutMs c \<le> 30000" "262144 \<le> TelemetryMaxBytes c"
      "TelemetryMaxBytes c \<le> 1048576" "1000 \<le> TelemetryMaxItems c" "TelemetryMaxItems c \<le> 10000"
    and fixed: "MaxRetryAttempts c = 5" "ConnectionTimeoutValue c = 10000 * Millisecond" "MaxDataPayloadSize c = 1024 * 1024"
      "AWSLambdaRuntimeAPI c \<noteq> []"
    using assms(1) by (simp_all add: expressible_def)
  have types: "Split_comma (joinStr '','' (LogTypes c)) = LogTypes c" "joinStr '','' (LogTypes c) \<noteq> []"
    using assms(1) by (simp_all add: expressible_def valid_types_split valid_types_joined)
  note read = bool_setting_def int_setting_def level_setting_def delay_setting_def assms(4) delay [symmetric] range
  have "setDefaults x (initial_config x) = (initial_config x)\<lparr>LogTypes := LogTypes c\<rparr>"
    by (simp add: setDefaults_def Let_def update_if_def env ne types initial_config_def fixed(4) assms(2))
  then have "fst (GetConfig x) = v_cfg (run_checks x
      \<lparr>v_cfg = (initial_config x)\<lparr>LogTypes := LogTypes c\<rparr>, allErrors = [], v_err = False\<rparr>)" by (simp add: fst_GetConfig)
  also have "\<dots> = (initial_config x)\<lparr>LogTypes := LogTypes c, EnableFailover := EnableFailover c, NumRetry := NumRetry c,
      RetrySleepTime := RetrySleepTime c, MaxDataQueueLength := MaxDataQueueLength c,
      MaxConcurrentRequests := MaxConcurrentRequests c, LogLevel := LogLevel c, EnhanceJsonLogs := EnhanceJsonLogs c,
      EnableSpanDrops := EnableSpanDrops c, KmsCacheSeconds := KmsCacheSeconds c,
      TelemetryTimeoutMs := TelemetryTimeoutMs c, TelemetryMaxBytes := TelemetryMaxBytes c,
      TelemetryMaxItems := TelemetryMaxItems c\<rparr>"
    by (simp add: run_checks_chain check_cfg env ne read max_bytes_parsed clamp_inside assms(2))
  also have "\<dots> = c" using fixed by (cases c) (simp add: initial_config_def env)
  finally show ?thesis .
qed

text \<open>No check adds an error on the printed settings.\<close>

lemma printed_checks:
  assumes "expressible c" and "level \<noteq> []" and "os_Getenv x = environment level c"
    and "logrus_ParseLevel x level = Inr (LogLevel c)" and "url_ParseRequestURI x (SumoHTTPEndpoint c) = None"
  shows "SumoHTTPEndpoint (v_cfg v) = SumoHTTPEndpoint c \<Longrightarrow> allErrors (check_endpoint x v) = allErrors v"
    and "S3BucketName (v_cfg v) = S3BucketName c \<Longrightarrow> S3BucketRegion (v_cfg v) = S3BucketRegion c \<Longrightarrow>
      allErrors (check_failover x v) = allErrors v"
    and "allErrors (check_numRetry x v) = allErrors v"
    and "allErrors (check_retrySleepTime x v) = allErrors v"
    and "allErrors (check_maxDataQueueLength x v) = allErrors v"
    and "allErrors (check_maxConcurrentRequests x v) = allErrors v"
    and "allErrors (check_logLevel x v) = allErrors v"
    and "allErrors (check_enhanceJsonLogs x v) = allErrors v"
    and "allErrors (check_enableSpanDrops x v) = allErrors v"
    and "allErrors (check_kmsCacheSeconds x v) = allErrors v"
    and "allErrors (check_telemetryTimeoutMs x v) = allErrors v"
    and "allErrors (check_telemetryMaxBytes x v) = allErrors v"
    and "allErrors (check_telemetryMaxItems x v) = allErrors v"
  using assms(1,2,4,5) expressibleD [OF assms(1)]
  by (auto simp: check_defs Let_def assms(3) environment_lookup stored_without_error int32_parsed show_int_not_Nil
      max_bytes_parsed expressible_def split: option.splits)

lemma printed_no_errors:
  assumes "expressible c" and "level \<noteq> []" and "os_Getenv x = environment level c"
    and "logrus_ParseLevel x level = Inr (LogLevel c)" and "url_ParseRequestURI x (SumoHTTPEndpoint c) = None"
  shows "allErrors (validated x (setDefaults x (initial_config x))) = []"
proof -
  let ?v = "\<lparr>v_cfg = setDefaults x (initial_config x), allErrors = [], v_err = False\<rparr>"
  have "SumoHTTPEndpoint (v_cfg ?v) = SumoHTTPEndpoint c" "S3BucketName (v_cfg ?v) = S3BucketName c"
    "S3BucketRegion (v_cfg ?v) = S3BucketRegion c"
    by (simp_all add: setDefaults_def Let_def update_if_upd initial_config_def assms(3) environment_lookup)
  then have "allErrors (run_checks x ?v) = []"
    by (simp only: run_checks_chain printed_checks [OF assms] check_cfg) simp
  moreover have "LogTypes (v_cfg (run_checks x ?v)) = LogTypes c"
    using printed_config [OF assms(1-4)] by (simp add: fst_GetConfig)
  ultimately show ?thesis using assms(1) by (simp add: Let_def valid_types_accepted expressible_def)
qed

section \<open>Property\<close>

text \<open>
  C18. Round trip of the configuration. For every configuration in the ranges of the variables, printing each
  setting into its environment variable and running \<open>GetConfig\<close> gives back exactly that configuration and a
  nil error: no setting is lost, clamped, defaulted or mixed up with another.
\<close>

theorem GetConfig_roundtrip:
  assumes "expressible c" and "level \<noteq> []" and "os_Getenv x = environment level c"
    and "logrus_ParseLevel x level = Inr (LogLevel c)" and "url_ParseRequestURI x (SumoHTTPEndpoint c) = None"
  shows "GetConfig x = (c, None)"
proof -
  have "snd (GetConfig x) = None"
    using printed_no_errors [OF assms] validated_err_reported [of x "setDefaults x (initial_config x)"]
    by (simp add: GetConfig_def validateConfig_validated err_reported_def)
  with printed_config [OF assms(1-4)] show ?thesis by (simp add: prod_eq_iff)
qed

definition custom_cfg :: LambdaExtensionConfig where
  "custom_cfg = sample_cfg\<lparr>AWSLambdaRuntimeAPI := ''127.0.0.1:9001'', LogTypes := [''function'', ''extension''], NumRetry := 7,
     RetrySleepTime := 250 * Millisecond, EnableSpanDrops := True, TelemetryTimeoutMs := 500\<rparr>"

definition custom_ext :: ext where
  "custom_ext = sample_ext\<lparr>os_LookupEnv := map_of (settings ''info'' custom_cfg)\<rparr>"

theorem GetConfig_roundtrip_witness:
  "GetConfig custom_ext = (custom_cfg, None) \<and> NumRetry (fst (GetConfig custom_ext)) = 7"
proof -
  have "expressible custom_cfg" by code_simp
  moreover have "logrus_ParseLevel custom_ext ''info'' = Inr (LogLevel custom_cfg)" by code_simp
  moreover have "os_Getenv custom_ext = environment ''info'' custom_cfg"
    "url_ParseRequestURI custom_ext (SumoHTTPEndpoint custom_cfg) = None"
    by (simp_all add: fun_eq_iff os_Getenv_def environment_def custom_ext_def sample_ext_def)
  ultimately have "GetConfig custom_ext = (custom_cfg, None)" using GetConfig_roundtrip [of custom_cfg "''info''"] by simp
  moreover have "NumRetry custom_cfg = 7" by (simp add: custom_cfg_def)
  ultimately show ?thesis by simp
qed

end
