(* ===== verification/Pretty.thy ===== *)
theory Pretty
  imports Utils Json_Roundtrip
begin

text \<open>
  \<open>PrettyPrint\<close> of \<open>utils.go\<close>: the indented text is a text of the same value, so it decodes to what the plain
  encoding decodes to, and the empty string is returned exactly for values that cannot be encoded.
\<close>

lemma indented_None:
  "(MarshalIndent d v = None) = (marshal v = None)"
  "(indent_items d vs = None) = (marshal_items vs = None)"
  "(indent_fields d m = None) = (marshal_fields m = None)"
  by (induction d v and d vs and d m rule: MarshalIndent_indent_items_indent_fields.induct) (auto split: option.splits)

lemma blank_new_line [simp]: "blank (new_line d)" "blank '' ''"
  by (simp_all add: new_line_def blank_def is_ws_def list_all_iff)

lemma indented_Nil [simp]: "indent_items d vs = Some [] \<longleftrightarrow> vs = []" "indent_fields d m = Some [] \<longleftrightarrow> m = []"
  by (cases vs, auto split: option.splits) (cases m, auto split: option.splits)

lemma indented_text:
  shows "MarshalIndent d v = Some s \<Longrightarrow> clean v \<Longrightarrow> text_of v s"
    and "indent_items d vs = Some xs \<Longrightarrow> \<forall>v \<in> set vs. clean v \<Longrightarrow> list_all2 text_of vs xs"
    and "indent_fields d m = Some xs \<Longrightarrow> \<forall>(k, v) \<in> set m. valid_utf8 k \<and> clean v \<Longrightarrow>
      list_all2 (\<lambda>p x. valid_utf8 (fst p) \<and> (\<exists>s. text_of (snd p) s \<and> x = json_string (fst p) @ CHR '':'' # '' '' @ s)) m xs"
proof (induction d v and d vs and d m arbitrary: s and xs and xs rule: MarshalIndent_indent_items_indent_fields.induct)
  case (1 d vs)
  then obtain xs where xs: "indent_items (Suc d) vs = Some xs" "list_all2 text_of vs xs" by auto
  show ?case
  proof (cases "vs = []")
    case True
    with 1(2) text_of.empty_slice show ?thesis by auto
  next
    case False
    with xs have "xs \<noteq> []" by auto
    with 1(2) xs text_of.slice [OF xs(2) False blank_new_line(1) [of "Suc d"] blank_new_line(1) [of d]] show ?thesis by simp
  qed
next
  case (2 d m)
  then obtain xs where xs: "indent_fields (Suc d) m = Some xs"
    "list_all2 (\<lambda>p x. valid_utf8 (fst p) \<and> (\<exists>s. text_of (snd p) s \<and> x = json_string (fst p) @ CHR '':'' # '' '' @ s)) m xs"
    by auto
  have sorted: "keys_sorted m" using 2(3) by simp
  show ?case
  proof (cases "m = []")
    case True
    with 2(2) text_of.empty_map show ?thesis by auto
  next
    case False
    with xs have "xs \<noteq> []" by auto
    with 2(2) xs text_of.map [OF xs(2) sorted False blank_new_line(1) [of "Suc d"] blank_new_line(1) [of d] blank_new_line(2)]
    show ?thesis by simp
  qed
qed (auto intro: marshal_text_of(1) split: option.splits)

lemma indented_not_Nil: "MarshalIndent d v = Some s \<Longrightarrow> s \<noteq> []"
  by (cases v) (auto simp: json_string_def dest: json_float_text split: if_splits)

text \<open>
  C33. \<open>PrettyPrint\<close> on every value of the encoder. It returns the empty string exactly when the value cannot be encoded
  (a number that is not finite, anywhere inside). A value whose strings are valid UTF-8, whose numbers
  are finite, whose maps are sorted and which nests no deeper than the decoder allows can be encoded, and its
  indented text decodes to that value.
\<close>

theorem PrettyPrint_decodes:
  "(PrettyPrint v = [] \<longleftrightarrow> marshal v = None)
   \<and> (clean v \<and> nests maxNestingDepth v \<longrightarrow> (\<exists>j. json_parse (PrettyPrint v) = Some j \<and> to_gv j = Some v))"
proof
  show "PrettyPrint v = [] \<longleftrightarrow> marshal v = None"
    using indented_None(1) [of 0 v] indented_not_Nil [of 0 v] by (auto simp: PrettyPrint_def split: option.splits)
  show "clean v \<and> nests maxNestingDepth v \<longrightarrow> (\<exists>j. json_parse (PrettyPrint v) = Some j \<and> to_gv j = Some v)"
  proof
    assume v: "clean v \<and> nests maxNestingDepth v"
    then obtain t where t: "MarshalIndent 0 v = Some t"
      using marshal_wf(1) [OF clean_wf] indented_None(1) [of 0 v] by fastforce
    from json_parse_text [OF indented_text(1) [OF t]] v t show
      "\<exists>j. json_parse (PrettyPrint v) = Some j \<and> to_gv j = Some v" by (simp add: PrettyPrint_def)
  qed
qed

theorem PrettyPrint_decodes_witness:
  "(\<exists>j. json_parse (PrettyPrint (VMap [(''a'', VSlice [VBool True, VString ''x'']), (''b'', VNil)])) = Some j
     \<and> to_gv j = Some (VMap [(''a'', VSlice [VBool True, VString ''x'']), (''b'', VNil)]))
   \<and> PrettyPrint (VSlice [VNil, VFloat NaN]) = []"
proof -
  let ?v = "VMap [(''a'', VSlice [VBool True, VString ''x'']), (''b'', VNil)]"
  have "clean ?v" "nests maxNestingDepth ?v" by code_simp+
  moreover have "marshal (VSlice [VNil, VFloat NaN]) = None" by code_simp
  ultimately show ?thesis
    using PrettyPrint_decodes [of ?v] PrettyPrint_decodes [of "VSlice [VNil, VFloat NaN]"] by blast
qed

end
