(* ===== verification/Spec2Isabelle.thy ===== *)
theory Spec2Isabelle
  imports System Managed_System Extension_Runs Config_Roundtrip Pretty
begin

text \<open>
  \<^bold>\<open>The Sumo Logic Lambda extension\<close>

  The program (\<open>src/lambda-extensions\<close>, Go) runs beside an AWS Lambda function. It registers with the
  runtime, subscribes to the Telemetry API, receives batches of log events by HTTP on a local port,
  queues them, enhances them, and posts them compressed to a Sumo Logic endpoint, with retries and
  an optional failover to S3. Its parts are the configuration, a set of utilities, the Sumo Logic
  client, a producer and a consumer around a channel (in a standard and in a managed instance
  variant), the client of the Lambda APIs, and the main program.

  \<^bold>\<open>Theories\<close>

  \<^item> \<open>Prelude\<close>: outcomes of Go code (a value, a panic, or a goroutine that never continues), actions that
    pass the state explicitly, lines and separators.
  \<^item> \<open>Go_Strings\<close>, \<open>Go_Float\<close>, \<open>Go_Json\<close>, \<open>Go_Json_Facts\<close>, \<open>Go_Decode\<close>: what the program uses of Go's standard
    library, executable: \<open>strconv\<close>, \<open>strings\<close>, \<open>base64\<close>, the formatting and rounding of \<open>float64\<close>, the parser,
    decoder and encoder of \<open>encoding/json\<close> (the parser has fuel twice the length of the input,
    which \<open>parse_fuel_enough\<close> shows to be enough), the verb \<open>%v\<close>, and decoding into structs.
  \<^item> \<open>Go_Float_Facts\<close>, \<open>Json_Numbers\<close>, \<open>Utf8\<close>, \<open>Json_Roundtrip\<close>: that decoding undoes encoding. The shortest decimal of a
    \<open>float64\<close> reads back as that number, escaped strings read back when they are valid UTF-8, and every JSON text of a
    value, whatever its white space (the relation \<open>text_of\<close>), decodes to the value.
  \<^item> \<open>World\<close>: the errors the program makes, the messages it exchanges, the external operations as the
    parameter \<open>ext\<close> (operating system, HTTP transport, AWS SDK, UUID, log levels, gzip), and the state they act on.
  \<^item> \<open>Utils\<close>, \<open>Pretty\<close>: \<open>utils/utils.go\<close> and \<open>utils/awsutils.go\<close>, with the contract \<open>retried\<close> of a retried function, and the
    round trip of \<open>PrettyPrint\<close>.
  \<^item> \<open>Config\<close>, \<open>Config_Props\<close>, \<open>Config_Roundtrip\<close>: \<open>config/config.go\<close> and \<open>config/version.go\<close>; every block of \<open>validateConfig\<close> is an
    instance of the contract \<open>config_block\<close>, and a configuration printed into the environment is read back.
  \<^item> \<open>SumoClient\<close>: \<open>sumoclient/sumoclient.go\<close>, all functions. \<open>Chunks\<close>, \<open>Enhance\<close>, \<open>Posting\<close>, \<open>Sending\<close> hold its
    properties: the content and size of the chunks, which payloads panic and what an enhanced item
    carries, one post with its retries and failover (an interpretation of \<open>retried\<close>), and the three
    operations of the interface \<open>LogSender\<close>. \<open>Enhance_Roundtrip\<close> has the typing of the items
    and the decoding of the posted lines, \<open>Samples\<close> the concrete inputs at which theorems are applied.
  \<^item> \<open>Chan\<close>: Go channels with their parked senders, and the queue interface \<open>fifo\<close> interpreted on them.
  \<^item> \<open>Workers\<close>, \<open>Workers_Props\<close>: \<open>workers/producer.go\<close> and \<open>workers/consumer.go\<close>. The consumer is written over the
    interface \<open>LogSender\<close>; its laws are the locale \<open>log_sender\<close>, interpreted on the client.
  \<^item> \<open>Managed\<close>, \<open>Managed_Props\<close>: \<open>workers/managed_instance_producer.go\<close> and \<open>workers/managed_instance_consumer.go\<close>.
  \<^item> \<open>Managed_System\<close>: the goroutines of the managed mode as a transition system over the statements of handlers
    and consumer, with its invariant, and the sequential operations as runs of it.
  \<^item> \<open>LambdaApi\<close>, \<open>LambdaApi_Props\<close>: \<open>lambdaapi/httpclient.go\<close>, \<open>extensionapiclient.go\<close>, \<open>telemetryapiclient.go\<close>,
    \<open>logsapiclient.go\<close>.
  \<^item> \<open>Extension\<close>, \<open>Extension_Props\<close>, \<open>Extension_Runs\<close>: \<open>sumologic-extension.go\<close>, from the package initialisers to \<open>main\<close>, the
    goroutine of the producer, and whole runs of the event loop.
  \<^item> \<open>System\<close>: the goroutines of the standard mode as a transition system, with the conservation of
    payloads, the deadlock of the requeue, and the refinement of \<open>DrainQueue\<close>: which step a call of the client takes (no
    error, an error, a panic) is tied to the outcome of \<open>SendAllLogs\<close> there, and likewise in \<open>Managed_System\<close>.

  \<^bold>\<open>How the code is represented\<close>

  A struct is a record with the fields of the source, a slice a list, a map with string keys a list of
  pairs with increasing keys, a duration a 64-bit word. The package variables of \<open>sumoclient.go\<close> are
  fields of \<open>world\<close>, together with the log of every HTTP exchange, upload, decryption and sleep; an
  external operation may answer differently at every call, since it gets the number of calls
  made so far. Errors are values; a panic keeps the state it happened in. Logging, which has no
  effect on what the program does, is left out, and so are the contexts of requests, whose effect
  is that of the external transport.

  Loops over data are structural recursions. The retry loop has a measure. A receiving loop over
  a channel is a \<open>partial_function\<close>: it is shown to return exactly on an open channel (\<open>drain_loop_open_only\<close>,
  \<open>receive_all_open_only\<close>), and \<open>DrainQueue_terminates_iff\<close> is the exact condition for the whole drain. The event loop and the signal loop, which in
  the program run for ever, follow a script with one entry per turn; an entry of the event loop has the requests handled
  before its drain and those handled while it waits in \<open>NextEvent\<close>, so that the drain at a shutdown has work to do.

  A request to the endpoint is \<open>settled\<close> when the code neither repeats nor reports it: the answer is 200, 302, or a status from 500
  on. \<open>settling\<close> is a server that settles every request. Such a server has taken the data only if it does not answer from
  500 on; \<open>SendAllLogs_nil_error\<close> separates the two.

  \<^bold>\<open>What is shown\<close>

  Data: the lines posted are exactly the enhanced items, and decode to them again; decoding and
  enhancement keep the items well typed; chunks respect the payload limit. Delivery: one post sends a
  bounded number of requests with the same body; the exact conditions under which an error is
  reported, a payload panics, a drain fails to return or a message is dropped, and what a nil error means for each chunk. With a
  server that settles requests everything that arrives is posted, once and in order, over whole runs of the
  standard loop, and everything queued at every signal of the managed one. Concurrency: no payload is lost or duplicated between handlers and client under every
  interleaving, in either mode, and the managed consumer misses no wake-up while sends succeed; the sequential
  operations refine both transition systems. Configuration: limits are in range, the arithmetic on them is exact,
  and every admissible configuration can be expressed. Several theorems state behaviour the code should
  not have: the cold start flag and the endpoint cache that never work, undelivered data dropped
  without an error, a malformed payload that makes its neighbours be sent again, the deadlock of the
  requeue, the batch that waits after a failed send, the panic at shutdown on managed instances, and a flush that
  blocks for ever when the bucket cannot be written and handlers are parked.

  \<^bold>\<open>What is not modelled\<close>

  All logging; the HTTP server and its multiplexer behind \<open>http.ListenAndServe\<close>, a parameter whose effect, running
  the handlers, is a step of the transition systems and an entry of the script; the AWS SDK, \<open>net/http\<close>, \<open>net/url\<close>,
  gzip and UUID, which are parameters; signals of the operating system, which appear as the done
  flag of a turn. That a panic in a goroutine ends the process is the Go runtime's doing: \<open>producer_goroutine\<close> ends in the panic,
  and in the transition systems the consumer never runs again after one. These systems have the drains of the consumer as
  steps; \<open>FlushDataQueue\<close>, which closes the queue at the end, is modelled sequentially only.
\<close>

end
